theory Spec2Isabelle
  imports Complex_Main "HOL-Library.Word"
begin

section \<open>Closed-orbit solver (Merlin++/ClosedOrbit.cpp)\<close>

text \<open>
  The solver works on \<^verbatim>\<open>double\<close>; the model reads every arithmetic operation of the
  source as the corresponding operation on \<^typ>\<open>real\<close>, so the theorems below say which
  operands the code combines and in which order, not how the result is rounded.
  \<^verbatim>\<open>int\<close> counters are \<^typ>\<open>int\<close>: \<^verbatim>\<open>iter++\<close> runs only while
  \<^verbatim>\<open>iter < max_iter\<close>, so it never leaves the range of a machine \<^verbatim>\<open>int\<close>.
\<close>

subsection \<open>Data\<close>

text \<open>
  \<^verbatim>\<open>PSvector\<close> is a fixed array of six doubles. It is modelled by its index function;
  every index the source uses is below 6 (the model's loops check it where the source's
  index depends on the size of a container). \<^verbatim>\<open>RealVector g(cpt)\<close> and
  \<^verbatim>\<open>RealMatrix dg(cpt)\<close> (TLAS, not part of the sources) are index functions
  too, with the dimension \<open>cpt\<close> passed along; \<open>dg m k\<close> is \<^verbatim>\<open>dg(m, k)\<close>.
\<close>

type_synonym PSvector = "nat \<Rightarrow> real"
type_synonym ParticleBunch = "PSvector list"
type_synonym RealVector = "nat \<Rightarrow> real"
type_synonym RealMatrix = "nat \<Rightarrow> nat \<Rightarrow> real"

text \<open>
  Process objects live on the free store: a pointer is an index into the store,
  \<^verbatim>\<open>new\<close> appends a cell, \<^verbatim>\<open>delete\<close> empties it. Of a process only the
  configuration \<^verbatim>\<open>FindClosedOrbit\<close> gives it is kept.
\<close>

type_synonym addr = nat

datatype component_steps = NumComponentSteps int | MaxComponentStepSize real

datatype process =
    SynchRadParticleProcess int component_steps bool
  | RingDeltaTProcess int real
  | UserProcess nat

type_synonym store = "process option list"

definition new_process :: "store \<Rightarrow> process \<Rightarrow> addr \<times> store" where
  "new_process st p = (length st, st @ [Some p])"

definition delete_process :: "store \<Rightarrow> addr \<Rightarrow> store" where
  "delete_process st a = st[a := None]"

text \<open>The processes of a store that are allocated and not deleted.\<close>

definition live :: "store \<Rightarrow> addr list" where
  "live st = filter (\<lambda>a. st ! a \<noteq> None) [0..<length st]"

text \<open>
  The fields of \<^verbatim>\<open>class ClosedOrbit\<close> that the source file assigns. Of
  \<^verbatim>\<open>theTracker\<close> (a \<^verbatim>\<open>ParticleTracker\<close>, not part of the sources) the state kept is
  the set of attached processes.
\<close>

record ClosedOrbit =
  transverseOnly :: bool
  radiation :: bool
  useFullAcc :: bool
  delta :: real
  tol :: real
  max_iter :: int
  bendscale :: real
  radstepsize :: real
  radnumsteps :: int
  w :: real
  iter :: int
  theTracker :: "addr set"

text \<open>
  Modelled from the spec: \<^verbatim>\<open>ParticleTracker\<close> is not part of the sources.
  \<^verbatim>\<open>AddProcess\<close> attaches a process to the tracker and \<^verbatim>\<open>RemoveProcess\<close> detaches
  it; neither allocates nor releases the process object (the source deletes
  \<^verbatim>\<open>ringdt\<close> itself, after removing it).
\<close>

definition AddProcess :: "ClosedOrbit \<Rightarrow> addr \<Rightarrow> ClosedOrbit" where
  "AddProcess co a = co\<lparr>theTracker := insert a (theTracker co)\<rparr>"

definition RemoveProcess :: "ClosedOrbit \<Rightarrow> addr \<Rightarrow> ClosedOrbit" where
  "RemoveProcess co a = co\<lparr>theTracker := theTracker co - {a}\<rparr>"

subsection \<open>One Newton iteration (lines 157 to 200)\<close>

text \<open>Lines 162 to 170: every particle of the bunch is reset; particle \<open>k > 0\<close> gets
  \<^verbatim>\<open>(*ip)[k - 1] += delta\<close>.\<close>

definition perturb :: "real \<Rightarrow> PSvector \<Rightarrow> nat \<Rightarrow> PSvector" where
  "perturb d particle k =
     (if k > 0 then particle(k - 1 := particle (k - 1) + d) else particle)"

definition reset_bunch :: "real \<Rightarrow> PSvector \<Rightarrow> ParticleBunch \<Rightarrow> ParticleBunch" where
  "reset_bunch d particle bnch = map (perturb d particle) [0..<length bnch]"

text \<open>Lines 182 to 190: \<^verbatim>\<open>p_ref\<close> is the first tracked particle, \<^verbatim>\<open>ip\<close> walks the
  following ones. The source divides by \<^verbatim>\<open>delta\<close> without a test; for a \<^verbatim>\<open>delta\<close>
  of zero the doubles are infinities or NaN, which the real numbers do not have, so
  the theorems that speak of the quotient take \<open>delta\<close> other than zero.\<close>

definition jacobian :: "nat \<Rightarrow> real \<Rightarrow> ParticleBunch \<Rightarrow> RealMatrix" where
  "jacobian cpt d tracked = (\<lambda>m k.
     if m < cpt \<and> k < cpt
     then ((tracked ! (k + 1)) m - (tracked ! 0) m) / d - (if m = k then 1 else 0)
     else 0)"

definition residual :: "nat \<Rightarrow> ParticleBunch \<Rightarrow> PSvector \<Rightarrow> RealVector" where
  "residual cpt tracked particle = (\<lambda>k.
     if k < cpt then (tracked ! 0) k - particle k else 0)"

text \<open>\<^verbatim>\<open>g * g\<close>, the dot product of two vectors of dimension \<open>n\<close>.\<close>

definition dot :: "nat \<Rightarrow> RealVector \<Rightarrow> RealVector \<Rightarrow> real" where
  "dot n a b = sum_list (map (\<lambda>i. a i * b i) [0..<n])"

text \<open>
  The body of the \<^verbatim>\<open>while\<close> loop. Parameters stand for the two collaborators whose
  code is not part of the sources: \<open>trk\<close> is \<^verbatim>\<open>theTracker->Track(&bunch)\<close> with the
  ring and the attached processes fixed (it tracks the bunch in place), and
  \<open>solve cpt dg g\<close> is \<^verbatim>\<open>SVDMatrix<double> invdg(dg); invdg(g)\<close>.
  Two accesses of the source have no defined behaviour and end the model with
  \<open>None\<close>: \<^verbatim>\<open>(*ip)[k - 1]\<close> beyond the sixth coordinate (a bunch of more than seven
  particles) and \<^verbatim>\<open>*ip\<close> past the end of the tracked bunch (fewer than
  \<open>cpt + 1\<close> particles left by the tracker).
\<close>

definition iteration ::
  "(ParticleBunch \<Rightarrow> ParticleBunch) \<Rightarrow> (nat \<Rightarrow> RealMatrix \<Rightarrow> RealVector \<Rightarrow> RealVector) \<Rightarrow>
   nat \<Rightarrow> real \<Rightarrow> ParticleBunch \<times> PSvector \<Rightarrow> (ParticleBunch \<times> PSvector \<times> real) option" where
  "iteration trk solve cpt d s =
     (case s of (bnch, particle) \<Rightarrow>
      if length bnch > 7 then None
      else
        let tracked = trk (reset_bunch d particle bnch) in
        if length tracked < cpt + 1 then None
        else
          let dg = jacobian cpt d tracked;
              g = residual cpt tracked particle;
              g' = solve cpt dg g;
              particle' = (\<lambda>row. if row < cpt then particle row - g' row else particle row)
          in Some (tracked, particle', dot cpt g' g'))"

subsection \<open>The loop (line 155) and the whole call\<close>

text \<open>The loop test compares \<^verbatim>\<open>w\<close> and \<^verbatim>\<open>tol\<close> as real numbers. A double \<^verbatim>\<open>w\<close>
  that is NaN (the quotient by a \<^verbatim>\<open>delta\<close> of zero) fails \<^verbatim>\<open>w > tol\<close> without being
  \<^verbatim>\<open>w <= tol\<close>; the theorems that use the order take \<^verbatim>\<open>delta\<close> other than zero.\<close>

function orbit_loop ::
  "(ParticleBunch \<Rightarrow> ParticleBunch) \<Rightarrow> (nat \<Rightarrow> RealMatrix \<Rightarrow> RealVector \<Rightarrow> RealVector) \<Rightarrow>
   nat \<Rightarrow> real \<Rightarrow> real \<Rightarrow> int \<Rightarrow> ParticleBunch \<Rightarrow> PSvector \<Rightarrow> real \<Rightarrow> int \<Rightarrow>
   (ParticleBunch \<times> PSvector \<times> real \<times> int) option" where
  "orbit_loop trk solve cpt d tlr mx bnch particle w0 it =
     (if w0 > tlr \<and> it < mx then
        (case iteration trk solve cpt d (bnch, particle) of
           None \<Rightarrow> None
         | Some (bnch', particle', w') \<Rightarrow>
             orbit_loop trk solve cpt d tlr mx bnch' particle' w' (it + 1))
      else Some (bnch, particle, w0, it))"
  by pat_completeness auto
termination
  by (relation "measure (\<lambda>(trk, solve, cpt, d, tlr, mx, bnch, particle, w0, it). nat (mx - it))")
     auto

declare orbit_loop.simps [simp del]

text \<open>
  Lines 113 to 141: the transient processes. \<^verbatim>\<open>srproc\<close> and \<^verbatim>\<open>ringdt\<close> start as
  \<^verbatim>\<open>nullptr\<close> (\<open>None\<close>); each is allocated, configured and attached under its
  condition.
\<close>

definition attach_transient ::
  "ClosedOrbit \<Rightarrow> store \<Rightarrow> addr option \<times> addr option \<times> ClosedOrbit \<times> store" where
  "attach_transient co st =
     (let (srproc, co1, st1) =
            (if radiation co then
               (let (a, st') = new_process st
                      (SynchRadParticleProcess 1
                         (if radstepsize co = 0 then NumComponentSteps (radnumsteps co)
                          else MaxComponentStepSize (radstepsize co))
                         False)
                in (Some a, AddProcess co a, st'))
             else (None, co, st));
          (ringdt, co2, st2) =
            (if bendscale co \<noteq> 0 then
               (let (a, st') = new_process st1 (RingDeltaTProcess 2 (bendscale co))
                in (Some a, AddProcess co1 a, st'))
             else (None, co1, st1))
      in (srproc, ringdt, co2, st2))"

text \<open>
  Lines 208 to 220: the clean-up. \<^verbatim>\<open>srproc\<close> is removed from the tracker;
  \<^verbatim>\<open>ringdt\<close> is removed from the tracker and deleted.
\<close>

definition detach_transient ::
  "addr option \<Rightarrow> addr option \<Rightarrow> ClosedOrbit \<Rightarrow> store \<Rightarrow> ClosedOrbit \<times> store" where
  "detach_transient srproc ringdt co st =
     (let co1 = (case srproc of Some a \<Rightarrow> RemoveProcess co a | None \<Rightarrow> co)
      in case ringdt of
           Some a \<Rightarrow> (RemoveProcess co1 a, delete_process st a)
         | None \<Rightarrow> (co1, st))"

text \<open>
  \<^verbatim>\<open>FindClosedOrbit(particle, ncpt)\<close>. \<open>Track ncpt procs st\<close> is one turn of the ring
  \<^verbatim>\<open>theModel->GetRing(ncpt)\<close> under the processes attached to the tracker. The function
  returns \<^verbatim>\<open>void\<close>: what the call leaves behind is the object, the free store and
  the vector passed by reference.
\<close>

definition FindClosedOrbit ::
  "(int \<Rightarrow> addr set \<Rightarrow> store \<Rightarrow> ParticleBunch \<Rightarrow> ParticleBunch) \<Rightarrow>
   (nat \<Rightarrow> RealMatrix \<Rightarrow> RealVector \<Rightarrow> RealVector) \<Rightarrow>
   ClosedOrbit \<Rightarrow> store \<Rightarrow> PSvector \<Rightarrow> int \<Rightarrow> (ClosedOrbit \<times> store \<times> PSvector) option" where
  "FindClosedOrbit Track solve co st particle ncpt =
     (let cpt = (if transverseOnly co then 4 else 6);
          bnch = replicate (cpt + 1) particle
      in case attach_transient co st of
           (srproc, ringdt, co2, st2) \<Rightarrow>
             (case orbit_loop (Track ncpt (theTracker co2) st2) solve cpt (delta co2) (tol co2)
                     (max_iter co2) bnch particle 1 1 of
                None \<Rightarrow> None
              | Some (bnch', particle', w', it') \<Rightarrow>
                  (case detach_transient srproc ringdt (co2\<lparr>w := w', iter := it'\<rparr>) st2 of
                     (co5, st5) \<Rightarrow> Some (co5, st5, particle'))))"

text \<open>
  The states at the head of the loop: \<open>iterates \<dots> s t\<close> holds when the loop started in
  \<open>s\<close> reaches its test in state \<open>t\<close> (bunch, guess, \<^verbatim>\<open>w\<close>, \<^verbatim>\<open>iter\<close>) after
  some number of passes through the body.
\<close>

inductive iterates ::
  "(ParticleBunch \<Rightarrow> ParticleBunch) \<Rightarrow> (nat \<Rightarrow> RealMatrix \<Rightarrow> RealVector \<Rightarrow> RealVector) \<Rightarrow>
   nat \<Rightarrow> real \<Rightarrow> real \<Rightarrow> int \<Rightarrow> ParticleBunch \<times> PSvector \<times> real \<times> int \<Rightarrow>
   ParticleBunch \<times> PSvector \<times> real \<times> int \<Rightarrow> bool"
  for trk solve cpt d tlr mx s where
    entry: "iterates trk solve cpt d tlr mx s s"
  | again: "iterates trk solve cpt d tlr mx s (bnch, particle, w0, it) \<Longrightarrow>
            w0 > tlr \<Longrightarrow> it < mx \<Longrightarrow>
            iteration trk solve cpt d (bnch, particle) = Some (bnch', particle', w') \<Longrightarrow>
            iterates trk solve cpt d tlr mx s (bnch', particle', w', it + 1)"

text \<open>
  The constructor (lines 22 to 30). It leaves \<^verbatim>\<open>radstepsize\<close>, \<^verbatim>\<open>radnumsteps\<close>,
  \<^verbatim>\<open>w\<close> and \<^verbatim>\<open>iter\<close> unset; their indeterminate values are the arguments. The new
  tracker has no process attached.
\<close>

definition construct :: "real \<Rightarrow> int \<Rightarrow> real \<Rightarrow> int \<Rightarrow> ClosedOrbit" where
  "construct rs rn w0 it =
     \<lparr>transverseOnly = False, radiation = False, useFullAcc = False,
      delta = 1 / 10 ^ 9, tol = 1 / 10 ^ 26, max_iter = 20, bendscale = 0,
      radstepsize = rs, radnumsteps = rn, w = w0, iter = it, theTracker = {}\<rparr>"

subsection \<open>RMS orbit (lines 229 to 260)\<close>

text \<open>
  The tracker is stepped through the components of the full beamline. Its code is not
  part of the sources: a component is given by its length
  (\<^verbatim>\<open>GetCurrentComponent().GetLength()\<close>) and by what \<^verbatim>\<open>StepComponent\<close> does to the
  first particle of the tracked bunch; \<^verbatim>\<open>StepComponent\<close> returns whether a component
  is left. The tracked particle before a step is \<^verbatim>\<open>prev\<close>: both start as
  \<^verbatim>\<open>particle\<close> and \<^verbatim>\<open>prev = pres\<close> follows every step. The body of a
  \<^verbatim>\<open>do \<dots> while\<close> runs before the test, so a beamline with no component reads a
  component that is not there (\<open>None\<close>). The source takes the quotient by the total
  length and the square root without a test: a total length of zero or a negative sum
  gives an infinity or NaN, which the real numbers do not have, so the theorem about the
  result takes component lengths that are not negative and a total length other than zero.
\<close>

type_synonym component = "real \<times> (PSvector \<Rightarrow> PSvector)"

fun rms_loop :: "component list \<Rightarrow> PSvector \<Rightarrow> PSvector \<Rightarrow> real \<Rightarrow> (PSvector \<times> real) option" where
  "rms_loop [] prev rms len = None"
| "rms_loop (c # cs) prev rms len =
     (let dl = fst c;
          pres = snd c prev;
          rms' = (\<lambda>m. if m < 6
                       then rms m + dl * (pres m + prev m) * (pres m + prev m) / 4
                       else rms m);
          len' = len + dl
      in if cs \<noteq> [] then rms_loop cs pres rms' len' else Some (rms', len'))"

definition FindRMSOrbit :: "component list \<Rightarrow> PSvector \<Rightarrow> PSvector option" where
  "FindRMSOrbit beamline particle =
     (case rms_loop beamline particle (\<lambda>m. 0) 0 of
        None \<Rightarrow> None
      | Some (rms, len) \<Rightarrow> Some (\<lambda>m. if m < 6 then sqrt (rms m / len) else particle m))"

text \<open>
  What the description of the RMS orbit asks for, in its own words: per coordinate, the
  length-weighted sum of the squared means of consecutive step values, and the total
  path length.
\<close>

fun trapezoid_mean_square :: "component list \<Rightarrow> PSvector \<Rightarrow> nat \<Rightarrow> real" where
  "trapezoid_mean_square [] prev m = 0"
| "trapezoid_mean_square (c # cs) prev m =
     fst c * ((prev m + snd c prev m) / 2)\<^sup>2 + trapezoid_mean_square cs (snd c prev) m"

definition path_length :: "component list \<Rightarrow> real" where
  "path_length beamline = sum_list (map fst beamline)"

section \<open>Incremental tracking (ExamplesTutorials/Examples/ILCDFS/src/Accelerator.cpp)\<close>

subsection \<open>Data\<close>

text \<open>
  \<^verbatim>\<open>size_t\<close> is a 64-bit word: \<^verbatim>\<open>cb.location + 1\<close> and
  \<^verbatim>\<open>currentSegment.first - 1\<close> wrap around as \<open>+\<close> and \<open>-\<close> on words do.
  A \<^verbatim>\<open>Bunch*\<close> is an index into the free store of bunches (\<^verbatim>\<open>new\<close> appends a cell,
  \<^verbatim>\<open>delete\<close> empties it); the type \<open>'b\<close> of a bunch's value is left open.
\<close>

type_synonym size_t = "64 word"
type_synonym DFS_Segment = "size_t \<times> size_t"

text \<open>
  How a call ends. The source has no checked error path, so nothing in the model
  produces \<open>Rejected\<close> (an exception or an abort raised by a check); \<open>Undefined\<close> is
  undefined behaviour of C++: an unchecked \<^verbatim>\<open>operator[]\<close> out of range, or the use of
  a pointer to no live object.
\<close>

datatype 'a outcome = Rejected | Undefined | Returns 'a

text \<open>
  Modelled from the spec: \<^verbatim>\<open>struct CachedBunch\<close> is declared in Accelerator.h, which
  is not part of the sources. An entry holds the pointer it was built from and a location
  that starts at 0, "not yet advanced".
\<close>

record CachedBunch =
  location :: size_t
  bunch :: addr

record 'b Accelerator =
  cachedBunches :: "CachedBunch list"
  currentSegment :: DFS_Segment
  allowIncrTracking :: bool
  free_store :: "'b option list"

text \<open>The constructor (lines 37 to 41): no cache entry, segment \<open>(0, 0)\<close>, incremental
  tracking off. No bunch has been allocated.\<close>

definition Accelerator_init :: "'b Accelerator" where
  "Accelerator_init =
     \<lparr>cachedBunches = [], currentSegment = (0, 0), allowIncrTracking = False, free_store = []\<rparr>"

definition AllowIncrementalTracking :: "'b Accelerator \<Rightarrow> bool \<Rightarrow> 'b Accelerator" where
  "AllowIncrementalTracking acc flg = acc\<lparr>allowIncrTracking := flg\<rparr>"

definition SetActiveBeamlineSegment :: "'b Accelerator \<Rightarrow> DFS_Segment \<Rightarrow> 'b Accelerator" where
  "SetActiveBeamlineSegment acc seg = acc\<lparr>currentSegment := seg\<rparr>"

definition deref :: "'b option list \<Rightarrow> addr \<Rightarrow> 'b option" where
  "deref h a = (if a < length h then h ! a else None)"

text \<open>
  Modelled from the spec: \<^verbatim>\<open>BeamDynamicsModel\<close> (\<^verbatim>\<open>itsTracker\<close>) is not part of the
  sources. \<open>track n1 n2\<close> is what tracking through
  \<^verbatim>\<open>itsAccModel->GetBeamline(n1, n2)\<close> does to a bunch. \<^verbatim>\<open>TrackThisBunch\<close> tracks
  the bunch it is given in place; \<^verbatim>\<open>SetInitialBunch\<close> followed by \<^verbatim>\<open>TrackBunch\<close>
  tracks a copy, which is a new object, and leaves the original untouched.
\<close>

definition TrackThisBunch ::
  "(size_t \<Rightarrow> size_t \<Rightarrow> 'b \<Rightarrow> 'b) \<Rightarrow> size_t \<Rightarrow> size_t \<Rightarrow> 'b option list \<Rightarrow> addr \<Rightarrow>
   'b option list option" where
  "TrackThisBunch track n1 n2 h a =
     (case deref h a of None \<Rightarrow> None | Some b \<Rightarrow> Some (h[a := Some (track n1 n2 b)]))"

definition TrackBunch ::
  "(size_t \<Rightarrow> size_t \<Rightarrow> 'b \<Rightarrow> 'b) \<Rightarrow> size_t \<Rightarrow> size_t \<Rightarrow> 'b option list \<Rightarrow> addr \<Rightarrow>
   (addr \<times> 'b option list) option" where
  "TrackBunch track n1 n2 h a =
     (case deref h a of None \<Rightarrow> None | Some b \<Rightarrow> Some (length h, h @ [Some (track n1 n2 b)]))"

subsection \<open>TrackBeam (lines 103 to 141)\<close>

text \<open>Lines 109 to 127, for the entry \<^verbatim>\<open>cb = cachedBunches[i]\<close>.\<close>

definition gap_fill ::
  "(size_t \<Rightarrow> size_t \<Rightarrow> 'b \<Rightarrow> 'b) \<Rightarrow> 'b Accelerator \<Rightarrow> nat \<Rightarrow> 'b Accelerator outcome" where
  "gap_fill track acc i =
     (let cb = cachedBunches acc ! i in
      if allowIncrTracking acc then
        if fst (currentSegment acc) \<noteq> 0 \<and> location cb + 1 \<noteq> fst (currentSegment acc) then
          let n1 = (if location cb = 0 then 0 else location cb + 1);
              n2 = fst (currentSegment acc) - 1
          in case TrackThisBunch track n1 n2 (free_store acc) (bunch cb) of
               None \<Rightarrow> Undefined
             | Some h \<Rightarrow>
                 Returns (acc\<lparr>cachedBunches := (cachedBunches acc)[i := cb\<lparr>location := n2\<rparr>],
                              free_store := h\<rparr>)
        else Returns acc
      else Returns acc)"

text \<open>Lines 130 to 138: the result is the state and the pointer \<^verbatim>\<open>rb\<close>.\<close>

definition track_copy ::
  "(size_t \<Rightarrow> size_t \<Rightarrow> 'b \<Rightarrow> 'b) \<Rightarrow> 'b Accelerator \<Rightarrow> nat \<Rightarrow> ('b Accelerator \<times> addr) outcome" where
  "track_copy track acc i =
     (let cb = cachedBunches acc ! i;
          n1 = (if allowIncrTracking acc then fst (currentSegment acc) else 0);
          n2 = snd (currentSegment acc)
      in case TrackBunch track n1 n2 (free_store acc) (bunch cb) of
           None \<Rightarrow> Undefined
         | Some (rb, h) \<Rightarrow> Returns (acc\<lparr>free_store := h\<rparr>, rb))"

text \<open>
  The whole call. \<^verbatim>\<open>TrackBeam\<close> returns \<^verbatim>\<open>void\<close>; the tracked copy \<^verbatim>\<open>*rb\<close> is read
  once, for the trace line of line 139, and deleted on line 140. \<open>TrackBeam_traced\<close>
  pairs the state after the call with the value \<^verbatim>\<open>*rb\<close> had on line 139.
\<close>

definition TrackBeam_traced ::
  "(size_t \<Rightarrow> size_t \<Rightarrow> 'b \<Rightarrow> 'b) \<Rightarrow> 'b Accelerator \<Rightarrow> size_t \<Rightarrow> ('b Accelerator \<times> 'b) outcome" where
  "TrackBeam_traced track acc nstate =
     (if \<not> unat nstate < length (cachedBunches acc) then Undefined
      else
        case gap_fill track acc (unat nstate) of
          Rejected \<Rightarrow> Rejected
        | Undefined \<Rightarrow> Undefined
        | Returns acc1 \<Rightarrow>
            (case track_copy track acc1 (unat nstate) of
               Rejected \<Rightarrow> Rejected
             | Undefined \<Rightarrow> Undefined
             | Returns (acc2, rb) \<Rightarrow>
                 (case deref (free_store acc2) rb of
                    None \<Rightarrow> Undefined
                  | Some tracked \<Rightarrow>
                      Returns (acc2\<lparr>free_store := (free_store acc2)[rb := None]\<rparr>, tracked))))"

definition TrackBeam ::
  "(size_t \<Rightarrow> size_t \<Rightarrow> 'b \<Rightarrow> 'b) \<Rightarrow> 'b Accelerator \<Rightarrow> size_t \<Rightarrow> 'b Accelerator outcome" where
  "TrackBeam track acc nstate =
     (case TrackBeam_traced track acc nstate of
        Rejected \<Rightarrow> Rejected
      | Undefined \<Rightarrow> Undefined
      | Returns (acc', tracked) \<Rightarrow> Returns acc')"

subsection \<open>InitialiseTracking (lines 194 to 207)\<close>

text \<open>
  \<open>mk\<close> is the bunch \<^verbatim>\<open>itsTracker->CreateBunch(*beam0)\<close> builds. The loop state is
  the accelerator and the caller's \<^verbatim>\<open>refplist\<close>, a list of pointers. What
  \<^verbatim>\<open>cachedBunches.clear()\<close> does to the bunches of the old entries is decided in
  Accelerator.h and not modelled: the old cells stay as they are.
\<close>

function InitialiseTracking_loop ::
  "'b \<Rightarrow> size_t \<Rightarrow> 'b Accelerator \<Rightarrow> addr list \<Rightarrow> 'b Accelerator \<times> addr list" where
  "InitialiseTracking_loop mk nstates acc refplist =
     (if nstates > 0 then
        (let b = length (free_store acc);
             acc' = acc\<lparr>free_store := free_store acc @ [Some mk]\<rparr>;
             refplist' = refplist @ [b];
             acc'' = acc'\<lparr>cachedBunches := cachedBunches acc' @ [\<lparr>location = 0, bunch = b\<rparr>]\<rparr>
         in InitialiseTracking_loop mk (nstates - 1) acc'' refplist')
      else (acc, refplist))"
  by pat_completeness auto
termination
  by (relation "measure (\<lambda>(mk, nstates, acc, refplist). unat nstates)")
     (auto simp: unat_minus_one word_gt_0 unat_gt_0 intro!: diff_Suc_less)

declare InitialiseTracking_loop.simps [simp del]

definition InitialiseTracking ::
  "'b \<Rightarrow> 'b Accelerator \<Rightarrow> size_t \<Rightarrow> 'b Accelerator \<times> addr list" where
  "InitialiseTracking mk acc nstates =
     InitialiseTracking_loop mk nstates (acc\<lparr>cachedBunches := []\<rparr>) []"

subsection \<open>A sequence of active segments\<close>

text \<open>
  The caller's loop of the claims about sequences: for each segment in turn,
  \<^verbatim>\<open>SetActiveBeamlineSegment\<close> and then \<^verbatim>\<open>TrackBeam\<close> on state \<open>nstate\<close>; the
  result lists the tracked bunches the calls produced.
\<close>

fun track_segments ::
  "(size_t \<Rightarrow> size_t \<Rightarrow> 'b \<Rightarrow> 'b) \<Rightarrow> 'b Accelerator \<Rightarrow> size_t \<Rightarrow> DFS_Segment list \<Rightarrow>
   'b list outcome" where
  "track_segments track acc nstate [] = Returns []"
| "track_segments track acc nstate (seg # segs) =
     (case TrackBeam_traced track (SetActiveBeamlineSegment acc seg) nstate of
        Rejected \<Rightarrow> Rejected
      | Undefined \<Rightarrow> Undefined
      | Returns (acc', tracked) \<Rightarrow>
          (case track_segments track acc' nstate segs of
             Rejected \<Rightarrow> Rejected
           | Undefined \<Rightarrow> Undefined
           | Returns rest \<Rightarrow> Returns (tracked # rest)))"

section \<open>Inputs for the examples\<close>

text \<open>
  A ring whose one-turn map triples every coordinate of every particle, the solver that
  divides by the diagonal (the solution of \<open>J c = r\<close> when \<open>J\<close> is diagonal with a
  non-zero diagonal), and the product of a matrix and a vector.
\<close>

definition triple_ring :: "ParticleBunch \<Rightarrow> ParticleBunch" where
  "triple_ring = map (\<lambda>q i. 3 * q i)"

definition diagonal_solve :: "nat \<Rightarrow> RealMatrix \<Rightarrow> RealVector \<Rightarrow> RealVector" where
  "diagonal_solve n J r = (\<lambda>i. r i / J i i)"


text \<open>
  A tracker whose bunch is the list of the beamline indices it has passed: tracking
  through \<open>[n1, n2]\<close> appends \<open>n1, \<dots>, n2\<close>. \<open>one_state flg seg\<close> is an accelerator
  after \<^verbatim>\<open>InitialiseTracking(1, refplist)\<close> with that tracker (a new bunch has passed
  nothing), \<^verbatim>\<open>AllowIncrementalTracking(flg)\<close> and
  \<^verbatim>\<open>SetActiveBeamlineSegment(seg)\<close>.
\<close>

definition visit :: "size_t \<Rightarrow> size_t \<Rightarrow> nat list \<Rightarrow> nat list" where
  "visit n1 n2 xs = xs @ [unat n1..<Suc (unat n2)]"

definition one_state :: "bool \<Rightarrow> DFS_Segment \<Rightarrow> nat list Accelerator" where
  "one_state flg seg =
     SetActiveBeamlineSegment
       (AllowIncrementalTracking (fst (InitialiseTracking [] Accelerator_init 1)) flg) seg"

section \<open>The closed-orbit iteration\<close>

subsection \<open>The loop and its states\<close>

text \<open>The loop started in a state it reaches returns what the loop started at the
  beginning returns: \<open>iterates\<close> describes the passes of \<open>orbit_loop\<close> and no others.\<close>

lemma iterates_loop:
  "iterates trk solve cpt d tlr mx s t \<Longrightarrow>
   (case t of (b, p, w0, it) \<Rightarrow> orbit_loop trk solve cpt d tlr mx b p w0 it) =
   (case s of (b, p, w0, it) \<Rightarrow> orbit_loop trk solve cpt d tlr mx b p w0 it)"
proof (induction rule: iterates.induct)
  case entry
  show ?case by simp
next
  case (again bnch particle w0 it bnch' particle' w')
  then show ?case
    by (simp add: orbit_loop.simps [of trk solve cpt d tlr mx bnch particle w0 it])
qed

lemma iteration_tracked:
  "iteration trk solve cpt d (b, p) = Some (b', p', w') \<Longrightarrow> b' = trk (reset_bunch d p b)"
  by (auto simp: iteration_def Let_def split: if_splits)

lemma iterates_length:
  assumes "iterates trk solve cpt d tlr mx s t" "\<forall>b. length (trk b) = length b"
  shows "length (fst t) = length (fst s)"
  using assms
proof (induction rule: iterates.induct)
  case entry
  show ?case by simp
next
  case (again bnch particle w0 it bnch' particle' w')
  then show ?case by (auto dest!: iteration_tracked simp: reset_bunch_def)
qed

text \<open>When the loop returns, it returns a state it reached, and its test fails there.\<close>

lemma orbit_loop_iterates:
  "orbit_loop trk solve cpt d tlr mx b p w0 it = Some t \<Longrightarrow>
   iterates trk solve cpt d tlr mx (b, p, w0, it) t \<and>
   \<not> (fst (snd (snd t)) > tlr \<and> snd (snd (snd t)) < mx)"
proof (induction trk solve cpt d tlr mx b p w0 it rule: orbit_loop.induct)
  case (1 trk solve cpt d tlr mx bnch particle w0 it)
  show ?case
  proof (cases "w0 > tlr \<and> it < mx")
    case False
    with "1.prems" show ?thesis
      by (auto simp: orbit_loop.simps [of trk solve cpt d tlr mx bnch particle w0 it]
          intro: iterates.entry)
  next
    case True
    with "1.prems" obtain b' p' w' where
      step: "iteration trk solve cpt d (bnch, particle) = Some (b', p', w')" and
      rest: "orbit_loop trk solve cpt d tlr mx b' p' w' (it + 1) = Some t"
      by (auto simp: orbit_loop.simps [of trk solve cpt d tlr mx bnch particle w0 it]
          split: option.splits)
    from "1.IH" [OF True step refl refl rest]
    have ih: "iterates trk solve cpt d tlr mx (b', p', w', it + 1) t"
      and stop: "\<not> (fst (snd (snd t)) > tlr \<and> snd (snd (snd t)) < mx)" by auto
    have first: "iterates trk solve cpt d tlr mx (bnch, particle, w0, it) (b', p', w', it + 1)"
      using iterates.again [OF iterates.entry _ _ step] True by simp
    have "iterates trk solve cpt d tlr mx (bnch, particle, w0, it) t"
      using ih first
    proof (induction rule: iterates.induct)
      case entry
      then show ?case .
    next
      case (again bnch particle w0 it bnch' particle' w')
      then show ?case by (auto intro: iterates.again)
    qed
    with stop show ?thesis by simp
  qed
qed

text \<open>With a tracker that keeps the number of particles the loop returns: no pass reads
  past the tracked bunch, and \<^verbatim>\<open>iter\<close> grows towards \<^verbatim>\<open>max_iter\<close>.\<close>

lemma orbit_loop_returns:
  assumes "\<forall>b. length (trk b) = length b" "length b = cpt + 1" "cpt \<le> 6"
  shows "\<exists>t. orbit_loop trk solve cpt d tlr mx b p w0 it = Some t"
  using assms
proof (induction trk solve cpt d tlr mx b p w0 it rule: orbit_loop.induct)
  case (1 trk solve cpt d tlr mx bnch particle w0 it)
  show ?case
  proof (cases "w0 > tlr \<and> it < mx")
    case False
    then show ?thesis
      by (auto simp: orbit_loop.simps [of trk solve cpt d tlr mx bnch particle w0 it])
  next
    case True
    let ?b = "trk (reset_bunch d particle bnch)"
    have len: "length ?b = cpt + 1"
      using "1.prems" by (simp add: reset_bunch_def)
    obtain p' w' where step: "iteration trk solve cpt d (bnch, particle) = Some (?b, p', w')"
      using "1.prems" len by (simp add: iteration_def Let_def)
    from "1.IH" [OF True step refl refl "1.prems"(1) len "1.prems"(3)]
    show ?thesis using True step
      by (simp add: orbit_loop.simps [of trk solve cpt d tlr mx bnch particle w0 it])
  qed
qed

text \<open>A state the loop reaches is its initial state, or the result of a pass of the body
  from a state it reached before, where the loop test held; \<^verbatim>\<open>iter\<close> never decreases.\<close>

lemma iterates_previous:
  assumes "iterates trk solve cpt d tlr mx s t"
  shows "t = s \<or>
         (\<exists>b q w0 it. iterates trk solve cpt d tlr mx s (b, q, w0, it) \<and> tlr < w0 \<and> it < mx \<and>
            iteration trk solve cpt d (b, q) = Some (fst t, fst (snd t), fst (snd (snd t))) \<and>
            snd (snd (snd t)) = it + 1)"
  using assms by (cases rule: iterates.cases) auto

lemma iterates_counter:
  assumes "iterates trk solve cpt d tlr mx s t"
  shows "snd (snd (snd s)) \<le> snd (snd (snd t))"
  using assms by (induction rule: iterates.induct) auto

subsection \<open>One pass of the body\<close>

text \<open>What a pass returns, read off the body.\<close>

lemma iteration_result:
  assumes "iteration trk solve cpt d (b, q) = Some (tracked, p', w')"
  shows "tracked = trk (reset_bunch d q b) \<and>
         p' = (\<lambda>row. if row < cpt
                      then q row - solve cpt (jacobian cpt d tracked) (residual cpt tracked q) row
                      else q row) \<and>
         w' = dot cpt (solve cpt (jacobian cpt d tracked) (residual cpt tracked q))
                      (solve cpt (jacobian cpt d tracked) (residual cpt tracked q))"
  using assms by (auto simp: iteration_def Let_def split: if_splits)

text \<open>A pass from a bunch of \<open>cpt + 1\<close> particles, with a tracker that keeps the number of
  particles: the probe bunch, and the matrix and the vector handed to the solver.\<close>

lemma pass_at_loop_state:
  assumes pres: "\<forall>b. length (trk b) = length b"
    and small: "cpt \<le> 6"
    and len: "length b = cpt + 1"
  shows "length (reset_bunch d p b) = cpt + 1 \<and> reset_bunch d p b ! 0 = p \<and>
   (\<forall>k. 1 \<le> k \<and> k \<le> cpt \<longrightarrow> reset_bunch d p b ! k = p(k - 1 := p (k - 1) + d)) \<and>
   (\<exists>tracked J r. tracked = trk (reset_bunch d p b) \<and>
      (\<forall>m<cpt. \<forall>k<cpt. J m k =
          ((tracked ! (k + 1)) m - (tracked ! 0) m) / d - (if m = k then 1 else 0)) \<and>
      (\<forall>k<cpt. r k = (tracked ! 0) k - p k) \<and>
      iteration trk solve cpt d (b, p) =
        Some (tracked, (\<lambda>row. if row < cpt then p row - solve cpt J r row else p row),
              dot cpt (solve cpt J r) (solve cpt J r)))"
proof -
  have probe: "length (reset_bunch d p b) = cpt + 1"
    by (simp add: reset_bunch_def len)
  have nth: "reset_bunch d p b ! k = perturb d p k" if "k < length b" for k
    using that by (simp add: reset_bunch_def)
  have ref: "reset_bunch d p b ! 0 = p"
    using nth [of 0] len by (simp add: perturb_def)
  have pert: "\<forall>k. 1 \<le> k \<and> k \<le> cpt \<longrightarrow> reset_bunch d p b ! k = p(k - 1 := p (k - 1) + d)"
    using nth len by (simp add: perturb_def)
  let ?tracked = "trk (reset_bunch d p b)"
  let ?J = "jacobian cpt d ?tracked"
  let ?r = "residual cpt ?tracked p"
  have J: "\<forall>m<cpt. \<forall>k<cpt. ?J m k =
      ((?tracked ! (k + 1)) m - (?tracked ! 0) m) / d - (if m = k then 1 else 0)"
    by (simp add: jacobian_def)
  have r: "\<forall>k<cpt. ?r k = (?tracked ! 0) k - p k"
    by (simp add: residual_def)
  have run: "iteration trk solve cpt d (b, p) =
      Some (?tracked, (\<lambda>row. if row < cpt then p row - solve cpt ?J ?r row else p row),
            dot cpt (solve cpt ?J ?r) (solve cpt ?J ?r))"
    using small by (simp add: iteration_def Let_def len pres probe)
  from J r run have "\<exists>tracked J r. tracked = ?tracked \<and>
      (\<forall>m<cpt. \<forall>k<cpt. J m k =
          ((tracked ! (k + 1)) m - (tracked ! 0) m) / d - (if m = k then 1 else 0)) \<and>
      (\<forall>k<cpt. r k = (tracked ! 0) k - p k) \<and>
      iteration trk solve cpt d (b, p) =
        Some (tracked, (\<lambda>row. if row < cpt then p row - solve cpt J r row else p row),
              dot cpt (solve cpt J r) (solve cpt J r))"
    by blast
  with probe ref pert show ?thesis by blast
qed

subsection \<open>One pass on the tripling ring\<close>

text \<open>On the ring that triples every coordinate the matrix is twice the identity and the
  residual twice the guess, so the correction is the guess itself.\<close>

lemma triple_ring_nth:
  "k < length b \<Longrightarrow> (triple_ring (reset_bunch d p b) ! k) m = 3 * perturb d p k m"
  by (simp add: triple_ring_def reset_bunch_def)

lemma triple_ring_solution:
  assumes "k < cpt" "d \<noteq> 0" "length b = cpt + 1"
  shows "diagonal_solve cpt (jacobian cpt d (triple_ring (reset_bunch d p b)))
           (residual cpt (triple_ring (reset_bunch d p b)) p) k = p k"
proof -
  have "((3 * (p k + d) - 3 * p k) / d - 1) = 2"
    using assms(2) by (simp add: field_simps)
  then show ?thesis
    using assms by (simp add: diagonal_solve_def jacobian_def residual_def triple_ring_nth perturb_def)
qed

lemma dot_cong:
  assumes "\<And>k. k < n \<Longrightarrow> a k = b k"
  shows "dot n a a = dot n b b"
proof -
  have "map (\<lambda>i. a i * a i) [0..<n] = map (\<lambda>i. b i * b i) [0..<n]"
    by (rule map_cong) (simp_all add: assms)
  then show ?thesis by (simp only: dot_def)
qed

lemma triple_ring_iteration:
  assumes "cpt \<le> 6" "d \<noteq> 0" "length b = cpt + 1"
  shows "iteration triple_ring diagonal_solve cpt d (b, p) =
     Some (triple_ring (reset_bunch d p b), (\<lambda>row. if row < cpt then 0 else p row), dot cpt p p)"
proof -
  let ?c = "diagonal_solve cpt (jacobian cpt d (triple_ring (reset_bunch d p b)))
           (residual cpt (triple_ring (reset_bunch d p b)) p)"
  have c: "?c k = p k" if "k < cpt" for k
    using triple_ring_solution [OF that assms(2,3)] .
  have "(\<lambda>row. if row < cpt then p row - ?c row else p row) = (\<lambda>row. if row < cpt then 0 else p row)"
    by (rule ext) (simp add: c)
  moreover have "dot cpt ?c ?c = dot cpt p p"
    by (rule dot_cong) (rule c)
  moreover have "length (triple_ring (reset_bunch d p b)) = cpt + 1"
    by (simp add: triple_ring_def reset_bunch_def assms)
  ultimately show ?thesis
    using assms by (simp add: iteration_def Let_def)
qed

text \<open>With \<^verbatim>\<open>max_iter = 2\<close> a transverse-only solve makes exactly one pass.\<close>

lemma triple_ring_one_pass:
  assumes "d \<noteq> 0" "tlr < 1"
  shows "orbit_loop triple_ring diagonal_solve 4 d tlr 2 (replicate 5 (\<lambda>_. 1)) (\<lambda>_. 1) 1 1 =
     Some (triple_ring (reset_bunch d (\<lambda>_. 1) (replicate 5 (\<lambda>_. 1))),
           (\<lambda>i. if i < 4 then 0 else 1), 4, 2)"
proof -
  let ?b1 = "triple_ring (reset_bunch d (\<lambda>_. 1) (replicate 5 (\<lambda>_. 1)))"
  let ?p1 = "\<lambda>i::nat. if i < 4 then 0 else (1::real)"
  have first: "iteration triple_ring diagonal_solve 4 d (replicate 5 (\<lambda>_. 1), \<lambda>_. 1) =
      Some (?b1, ?p1, 4)"
    using triple_ring_iteration [of 4 d "replicate 5 (\<lambda>_. 1)" "\<lambda>_. 1"] assms(1)
    by (simp add: dot_def eval_nat_numeral upt_rec)
  have stop: "orbit_loop triple_ring diagonal_solve 4 d tlr 2 ?b1 ?p1 4 2 =
      Some (?b1, ?p1, 4, 2)"
    by (subst orbit_loop.simps) simp
  show ?thesis
    by (subst orbit_loop.simps) (simp add: first stop assms(2))
qed

subsection \<open>The correction and the track metric\<close>




section \<open>The whole call of FindClosedOrbit\<close>

subsection \<open>Its three parts\<close>

lemma FindClosedOrbit_parts:
  assumes "FindClosedOrbit Track solve co st p ncpt = Some (co', st', p')"
  obtains srproc ringdt co2 st2 b' w' it' where
    "attach_transient co st = (srproc, ringdt, co2, st2)"
    "orbit_loop (Track ncpt (theTracker co2) st2) solve (if transverseOnly co then 4 else 6)
       (delta co2) (tol co2) (max_iter co2)
       (replicate ((if transverseOnly co then 4 else 6) + 1) p) p 1 1 = Some (b', p', w', it')"
    "detach_transient srproc ringdt (co2\<lparr>w := w', iter := it'\<rparr>) st2 = (co', st')"
proof -
  obtain srproc ringdt co2 st2 where att: "attach_transient co st = (srproc, ringdt, co2, st2)"
    by (metis prod_cases4)
  let ?cpt = "if transverseOnly co then 4 else 6"
  let ?loop = "orbit_loop (Track ncpt (theTracker co2) st2) solve ?cpt
       (delta co2) (tol co2) (max_iter co2) (replicate (?cpt + 1) p) p 1 1"
  have run: "(case ?loop of None \<Rightarrow> None
      | Some (bnch', particle', w', it') \<Rightarrow>
          (case detach_transient srproc ringdt (co2\<lparr>w := w', iter := it'\<rparr>) st2 of
             (co5, st5) \<Rightarrow> Some (co5, st5, particle'))) = Some (co', st', p')"
    using assms unfolding FindClosedOrbit_def Let_def att by simp
  then obtain b' q w' it' where loop: "?loop = Some (b', q, w', it')"
    by (cases ?loop) auto
  obtain co5 st5 where det: "detach_transient srproc ringdt (co2\<lparr>w := w', iter := it'\<rparr>) st2 = (co5, st5)"
    by (metis prod.exhaust)
  from run loop det have "q = p'" "co5 = co'" "st5 = st'"
    by simp_all
  with att loop det that show thesis
    by blast
qed

lemma attach_transient_fields:
  assumes "attach_transient co st = (srproc, ringdt, co2, st2)"
  shows "delta co2 = delta co \<and> tol co2 = tol co \<and> max_iter co2 = max_iter co \<and>
         transverseOnly co2 = transverseOnly co"
  using assms
  by (auto simp: attach_transient_def Let_def new_process_def AddProcess_def split: if_splits)

lemma detach_transient_fields:
  assumes "detach_transient srproc ringdt co st = (co', st')"
  shows "delta co' = delta co \<and> tol co' = tol co \<and> max_iter co' = max_iter co \<and>
         w co' = w co \<and> iter co' = iter co"
  using assms
  by (auto simp: detach_transient_def Let_def RemoveProcess_def split: option.splits)

lemma FindClosedOrbit_returns:
  assumes "\<forall>n procs st b. length (Track n procs st b) = length b"
  shows "\<exists>co' st' p'. FindClosedOrbit Track solve co st p ncpt = Some (co', st', p')"
proof -
  obtain srproc ringdt co2 st2 where att: "attach_transient co st = (srproc, ringdt, co2, st2)"
    by (metis prod_cases4)
  let ?cpt = "if transverseOnly co then 4 else 6"
  have "\<exists>t. orbit_loop (Track ncpt (theTracker co2) st2) solve ?cpt
       (delta co2) (tol co2) (max_iter co2) (replicate (?cpt + 1) p) p 1 1 = Some t"
    by (rule orbit_loop_returns) (simp_all add: assms)
  then obtain b' q w' it' where loop: "orbit_loop (Track ncpt (theTracker co2) st2) solve ?cpt
       (delta co2) (tol co2) (max_iter co2) (replicate (?cpt + 1) p) p 1 1 = Some (b', q, w', it')"
    by (metis prod_cases4)
  obtain co5 st5 where det: "detach_transient srproc ringdt (co2\<lparr>w := w', iter := it'\<rparr>) st2 = (co5, st5)"
    by (metis prod.exhaust)
  have "FindClosedOrbit Track solve co st p ncpt = Some (co5, st5, q)"
    unfolding FindClosedOrbit_def Let_def att using loop det by simp
  then show ?thesis by blast
qed

subsection \<open>The probe bunch, the Jacobian and the residual\<close>

text \<open>
  Claim C1. Take a tracker that keeps the number of particles and a \<^verbatim>\<open>delta\<close> other
  than zero (the source divides by it). A call of \<^verbatim>\<open>FindClosedOrbit\<close> then returns,
  and what it returns is what its loop returns, started with \<^verbatim>\<open>w = 1\<close>,
  \<^verbatim>\<open>iter = 1\<close> and a bunch of \<open>cpt + 1\<close> copies of the guess, where \<open>cpt\<close> is 4
  for a transverse-only solve and 6 otherwise, under the tracker with the transient
  processes attached. At every state this loop reaches, the loop continued from there
  returns that same result, and: the bunch handed to the tracker has exactly \<open>cpt + 1\<close>
  particles; particle 0 is the current guess and particle \<open>k\<close>, for \<open>k\<close> from 1 to
  \<open>cpt\<close>, is the guess with \<^verbatim>\<open>delta\<close> added to coordinate \<open>k - 1\<close>; and when the loop
  test holds the loop goes on with the tracked bunch, the guess less the solver's
  answer and the dot product of that answer with itself, the solver being given a
  matrix whose entry \<open>(m, k)\<close> is the tracked coordinate \<open>m\<close> of particle \<open>k + 1\<close> minus
  that of particle 0, divided by \<^verbatim>\<open>delta\<close>, less 1 on the diagonal, and a vector whose
  entry \<open>k\<close> is the tracked coordinate \<open>k\<close> of particle 0 minus coordinate \<open>k\<close> of the
  guess.
\<close>

theorem probe_bunch_and_jacobian:
  assumes pres: "\<forall>n procs st b. length (Track n procs st b) = length b"
    and step: "delta co \<noteq> 0"
  shows "case attach_transient co st of (srproc, ringdt, co2, st2) \<Rightarrow>
     (let cpt = (if transverseOnly co then 4 else 6);
          d = delta co;
          trk = Track ncpt (theTracker co2) st2;
          start = (replicate (cpt + 1) p, p, 1, 1)
      in \<exists>co' st' b' p' w' it'.
           FindClosedOrbit Track solve co st p ncpt = Some (co', st', p') \<and>
           w co' = w' \<and> iter co' = it' \<and>
           orbit_loop trk solve cpt d (tol co) (max_iter co) (replicate (cpt + 1) p) p 1 1 =
             Some (b', p', w', it') \<and>
           (\<forall>b q w0 it.
              iterates trk solve cpt d (tol co) (max_iter co) start (b, q, w0, it) \<longrightarrow>
              orbit_loop trk solve cpt d (tol co) (max_iter co) b q w0 it = Some (b', p', w', it') \<and>
              length (reset_bunch d q b) = cpt + 1 \<and> reset_bunch d q b ! 0 = q \<and>
              (\<forall>k. 1 \<le> k \<and> k \<le> cpt \<longrightarrow> reset_bunch d q b ! k = q(k - 1 := q (k - 1) + d)) \<and>
              (\<exists>tracked J r. tracked = trk (reset_bunch d q b) \<and>
                 (\<forall>m<cpt. \<forall>k<cpt. J m k =
                    ((tracked ! (k + 1)) m - (tracked ! 0) m) / d - (if m = k then 1 else 0)) \<and>
                 (\<forall>k<cpt. r k = (tracked ! 0) k - q k) \<and>
                 (tol co < w0 \<and> it < max_iter co \<longrightarrow>
                    orbit_loop trk solve cpt d (tol co) (max_iter co) b q w0 it =
                    orbit_loop trk solve cpt d (tol co) (max_iter co) tracked
                      (\<lambda>row. if row < cpt then q row - solve cpt J r row else q row)
                      (dot cpt (solve cpt J r) (solve cpt J r)) (it + 1)))))"
proof -
  obtain srproc ringdt co2 st2 where att: "attach_transient co st = (srproc, ringdt, co2, st2)"
    by (metis prod_cases4)
  let ?cpt = "(if transverseOnly co then 4 else 6)::nat"
  let ?trk = "Track ncpt (theTracker co2) st2"
  let ?start = "(replicate (?cpt + 1) p, p, 1::real, 1::int)"
  have co2: "delta co2 = delta co" "tol co2 = tol co" "max_iter co2 = max_iter co"
    using attach_transient_fields [OF att] by simp_all
  have keeps: "\<forall>b. length (?trk b) = length b"
    using pres by simp
  have small: "?cpt \<le> 6"
    by simp
  have "\<exists>t. orbit_loop ?trk solve ?cpt (delta co) (tol co) (max_iter co)
      (replicate (?cpt + 1) p) p 1 1 = Some t"
    by (rule orbit_loop_returns [OF keeps _ small]) simp
  then obtain b' p' w' it' where
    loop: "orbit_loop ?trk solve ?cpt (delta co) (tol co) (max_iter co)
      (replicate (?cpt + 1) p) p 1 1 = Some (b', p', w', it')"
    by (metis prod_cases4)
  obtain co' st' where
    det: "detach_transient srproc ringdt (co2\<lparr>w := w', iter := it'\<rparr>) st2 = (co', st')"
    by (metis prod.exhaust)
  have call: "FindClosedOrbit Track solve co st p ncpt = Some (co', st', p')"
    unfolding FindClosedOrbit_def Let_def att using loop det by (simp add: co2)
  have left: "w co' = w'" "iter co' = it'"
    using detach_transient_fields [OF det] by simp_all
  have every: "orbit_loop ?trk solve ?cpt (delta co) (tol co) (max_iter co) b q w0 it =
        Some (b', p', w', it') \<and>
      length (reset_bunch (delta co) q b) = ?cpt + 1 \<and> reset_bunch (delta co) q b ! 0 = q \<and>
      (\<forall>k. 1 \<le> k \<and> k \<le> ?cpt \<longrightarrow>
         reset_bunch (delta co) q b ! k = q(k - 1 := q (k - 1) + delta co)) \<and>
      (\<exists>tracked J r. tracked = ?trk (reset_bunch (delta co) q b) \<and>
         (\<forall>m<?cpt. \<forall>k<?cpt. J m k =
            ((tracked ! (k + 1)) m - (tracked ! 0) m) / delta co - (if m = k then 1 else 0)) \<and>
         (\<forall>k<?cpt. r k = (tracked ! 0) k - q k) \<and>
         (tol co < w0 \<and> it < max_iter co \<longrightarrow>
            orbit_loop ?trk solve ?cpt (delta co) (tol co) (max_iter co) b q w0 it =
            orbit_loop ?trk solve ?cpt (delta co) (tol co) (max_iter co) tracked
              (\<lambda>row. if row < ?cpt then q row - solve ?cpt J r row else q row)
              (dot ?cpt (solve ?cpt J r) (solve ?cpt J r)) (it + 1)))"
    if reach: "iterates ?trk solve ?cpt (delta co) (tol co) (max_iter co) ?start (b, q, w0, it)"
    for b q w0 it
  proof -
    have same: "orbit_loop ?trk solve ?cpt (delta co) (tol co) (max_iter co) b q w0 it =
        Some (b', p', w', it')"
      using iterates_loop [OF reach] loop by simp
    have len: "length b = ?cpt + 1"
      using iterates_length [OF reach keeps] by simp
    from pass_at_loop_state [OF keeps small len, of "delta co" q solve]
    obtain tracked J r where
      probe: "length (reset_bunch (delta co) q b) = ?cpt + 1" "reset_bunch (delta co) q b ! 0 = q"
        "\<forall>k. 1 \<le> k \<and> k \<le> ?cpt \<longrightarrow>
           reset_bunch (delta co) q b ! k = q(k - 1 := q (k - 1) + delta co)" and
      tracked: "tracked = ?trk (reset_bunch (delta co) q b)" and
      J: "\<forall>m<?cpt. \<forall>k<?cpt. J m k =
            ((tracked ! (k + 1)) m - (tracked ! 0) m) / delta co - (if m = k then 1 else 0)" and
      r: "\<forall>k<?cpt. r k = (tracked ! 0) k - q k" and
      pass: "iteration ?trk solve ?cpt (delta co) (b, q) =
        Some (tracked, (\<lambda>row. if row < ?cpt then q row - solve ?cpt J r row else q row),
              dot ?cpt (solve ?cpt J r) (solve ?cpt J r))"
      by blast
    have next_pass: "tol co < w0 \<and> it < max_iter co \<longrightarrow>
            orbit_loop ?trk solve ?cpt (delta co) (tol co) (max_iter co) b q w0 it =
            orbit_loop ?trk solve ?cpt (delta co) (tol co) (max_iter co) tracked
              (\<lambda>row. if row < ?cpt then q row - solve ?cpt J r row else q row)
              (dot ?cpt (solve ?cpt J r) (solve ?cpt J r)) (it + 1)"
      using pass
      by (simp add: orbit_loop.simps [of ?trk solve ?cpt "delta co" "tol co" "max_iter co" b q w0 it])
    from same probe tracked J r next_pass show ?thesis
      by blast
  qed
  from call left loop every
  have "\<exists>co' st' b' p' w' it'.
           FindClosedOrbit Track solve co st p ncpt = Some (co', st', p') \<and>
           w co' = w' \<and> iter co' = it' \<and>
           orbit_loop ?trk solve ?cpt (delta co) (tol co) (max_iter co) (replicate (?cpt + 1) p) p 1 1 =
             Some (b', p', w', it') \<and>
           (\<forall>b q w0 it.
              iterates ?trk solve ?cpt (delta co) (tol co) (max_iter co) ?start (b, q, w0, it) \<longrightarrow>
              orbit_loop ?trk solve ?cpt (delta co) (tol co) (max_iter co) b q w0 it = Some (b', p', w', it') \<and>
              length (reset_bunch (delta co) q b) = ?cpt + 1 \<and> reset_bunch (delta co) q b ! 0 = q \<and>
              (\<forall>k. 1 \<le> k \<and> k \<le> ?cpt \<longrightarrow>
                 reset_bunch (delta co) q b ! k = q(k - 1 := q (k - 1) + delta co)) \<and>
              (\<exists>tracked J r. tracked = ?trk (reset_bunch (delta co) q b) \<and>
                 (\<forall>m<?cpt. \<forall>k<?cpt. J m k =
                    ((tracked ! (k + 1)) m - (tracked ! 0) m) / delta co - (if m = k then 1 else 0)) \<and>
                 (\<forall>k<?cpt. r k = (tracked ! 0) k - q k) \<and>
                 (tol co < w0 \<and> it < max_iter co \<longrightarrow>
                    orbit_loop ?trk solve ?cpt (delta co) (tol co) (max_iter co) b q w0 it =
                    orbit_loop ?trk solve ?cpt (delta co) (tol co) (max_iter co) tracked
                      (\<lambda>row. if row < ?cpt then q row - solve ?cpt J r row else q row)
                      (dot ?cpt (solve ?cpt J r) (solve ?cpt J r)) (it + 1))))"
    by blast
  then show ?thesis
    unfolding att prod.case Let_def .
qed

text \<open>The theorem for a transverse-only solve with \<^verbatim>\<open>delta = 1\<close> on the tripling ring,
  from the guess with every coordinate 1, at the state the loop reaches after its first
  pass: the first four coordinates of the guess are 0, and the second probe bunch is
  built around that guess.\<close>

theorem probe_bunch_and_jacobian_witness:
  "\<exists>co' st' p'.
     FindClosedOrbit (\<lambda>n procs st. triple_ring) diagonal_solve
       ((construct 0 1 0 0)\<lparr>transverseOnly := True, delta := 1\<rparr>) [] (\<lambda>_. 1) 0 =
       Some (co', st', p') \<and>
     length (reset_bunch 1 (\<lambda>i. if i < 4 then 0 else 1)
       (triple_ring (reset_bunch 1 (\<lambda>_. 1) (replicate 5 (\<lambda>_. 1))))) = 5 \<and>
     reset_bunch 1 (\<lambda>i. if i < 4 then 0 else 1)
       (triple_ring (reset_bunch 1 (\<lambda>_. 1) (replicate 5 (\<lambda>_. 1)))) ! 2 =
       (\<lambda>i. if i < 4 then 0 else 1)(1 := 1)"
proof -
  let ?co = "(construct 0 1 0 0)\<lparr>transverseOnly := True, delta := 1\<rparr>"
  let ?b1 = "triple_ring (reset_bunch 1 (\<lambda>_. 1) (replicate 5 (\<lambda>_. 1)))"
  let ?p1 = "\<lambda>i::nat. if i < 4 then 0 else (1::real)"
  have pres: "\<forall>n procs st b. length ((\<lambda>n procs st. triple_ring) n procs st b) = length b"
    by (simp add: triple_ring_def)
  have step: "delta ?co \<noteq> 0"
    by simp
  have att: "attach_transient ?co [] = (None, None, ?co, [])"
    by (simp add: attach_transient_def construct_def)
  have first: "iteration triple_ring diagonal_solve 4 1 (replicate 5 (\<lambda>_. 1), \<lambda>_. 1) =
      Some (?b1, ?p1, 4)"
    using triple_ring_iteration [of 4 1 "replicate 5 (\<lambda>_. 1)" "\<lambda>_. 1"]
    by (simp add: dot_def eval_nat_numeral upt_rec)
  let ?cpt = "(if transverseOnly ?co then 4 else 6)::nat"
  have reach: "iterates triple_ring diagonal_solve ?cpt (delta ?co) (tol ?co) (max_iter ?co)
      (replicate (?cpt + 1) (\<lambda>_. 1), \<lambda>_. 1, 1, 1) (?b1, ?p1, 4, 1 + 1)"
    using iterates.again [OF iterates.entry _ _ first, of "tol ?co" 1 1 "max_iter ?co"]
    by (simp add: construct_def)
  from probe_bunch_and_jacobian
         [OF pres step, where st = "[]" and ncpt = 0 and p = "\<lambda>_. 1" and solve = diagonal_solve]
  obtain co' st' p' where
    call: "FindClosedOrbit (\<lambda>n procs st. triple_ring) diagonal_solve ?co [] (\<lambda>_. 1) 0 =
       Some (co', st', p')" and
    every: "\<And>b q w0 it.
       iterates triple_ring diagonal_solve ?cpt (delta ?co) (tol ?co) (max_iter ?co)
         (replicate (?cpt + 1) (\<lambda>_. 1), \<lambda>_. 1, 1, 1) (b, q, w0, it) \<Longrightarrow>
       length (reset_bunch (delta ?co) q b) = ?cpt + 1 \<and>
       (\<forall>k. 1 \<le> k \<and> k \<le> ?cpt \<longrightarrow>
          reset_bunch (delta ?co) q b ! k = q(k - 1 := q (k - 1) + delta ?co))"
    unfolding att prod.case Let_def by blast
  from every [OF reach] have
    "length (reset_bunch (delta ?co) ?p1 ?b1) = ?cpt + 1"
    "1 \<le> (2::nat) \<and> 2 \<le> ?cpt \<longrightarrow>
       reset_bunch (delta ?co) ?p1 ?b1 ! 2 = ?p1(2 - 1 := ?p1 (2 - 1) + delta ?co)"
    by blast+
  with call show ?thesis
    by (auto simp: construct_def)
qed

subsection \<open>The transient processes\<close>

lemma live_append_Some: "live (st @ [Some x]) = live st @ [length st]"
proof -
  have "filter (\<lambda>a. (st @ [Some x]) ! a \<noteq> None) [0..<length st] =
        filter (\<lambda>a. st ! a \<noteq> None) [0..<length st]"
    by (rule filter_cong) (simp_all add: nth_append)
  then show ?thesis by (simp add: live_def)
qed

lemma live_append_None: "live (st @ [None]) = live st"
proof -
  have "filter (\<lambda>a. (st @ [None]) ! a \<noteq> None) [0..<length st] =
        filter (\<lambda>a. st ! a \<noteq> None) [0..<length st]"
    by (rule filter_cong) (simp_all add: nth_append)
  then show ?thesis by (simp add: live_def)
qed

lemma live_append_Some_None: "live (st @ [Some x, None]) = live st @ [length st]"
  using live_append_None [of "st @ [Some x]"] by (simp add: live_append_Some)

lemma attach_detach:
  assumes att: "attach_transient co st = (srproc, ringdt, co2, st2)"
    and det: "detach_transient srproc ringdt (co2\<lparr>w := w', iter := it'\<rparr>) st2 = (co5, st5)"
    and valid: "\<forall>a\<in>theTracker co. a < length st"
  shows "theTracker co5 = theTracker co \<and>
         live st5 = live st @ (if radiation co then [length st] else [])"
proof -
  have fresh: "length st \<notin> theTracker co" "Suc (length st) \<notin> theTracker co"
    using valid by auto
  show ?thesis
  proof (cases "radiation co")
    case True
    show ?thesis
    proof (cases "bendscale co = 0")
      case True
      with \<open>radiation co\<close> att det fresh show ?thesis
        by (auto simp: attach_transient_def detach_transient_def Let_def new_process_def
            AddProcess_def RemoveProcess_def live_append_Some)
    next
      case False
      with \<open>radiation co\<close> att det fresh show ?thesis
        by (auto simp: attach_transient_def detach_transient_def Let_def new_process_def
            delete_process_def AddProcess_def RemoveProcess_def live_append_Some_None
            list_update_append)
    qed
  next
    case False
    show ?thesis
    proof (cases "bendscale co = 0")
      case True
      with \<open>\<not> radiation co\<close> att det fresh show ?thesis
        by (auto simp: attach_transient_def detach_transient_def Let_def)
    next
      case False
      with \<open>\<not> radiation co\<close> att det fresh show ?thesis
        by (auto simp: attach_transient_def detach_transient_def Let_def new_process_def
            delete_process_def AddProcess_def RemoveProcess_def live_append_None)
    qed
  qed
qed

text \<open>
  Claim C6, on the code. Let every process attached to the tracker be an object of the
  free store. After a call that returns, on either exit of the loop, the set of processes
  attached to the tracker is the set before the call: both transient processes are
  detached. The ring-delta-path process is deleted. The synchrotron-radiation process
  is not: when radiation is enabled, the process allocated at the first free address
  \<open>length st\<close> is still a live object of the store after the call, so every such call
  leaves one more live process behind. The claim asks for both to be released.
\<close>

theorem transient_processes:
  assumes run: "FindClosedOrbit Track solve co st p ncpt = Some (co', st', p')"
    and valid: "\<forall>a\<in>theTracker co. a < length st"
  shows "theTracker co' = theTracker co \<and>
         live st' = live st @ (if radiation co then [length st] else [])"
  using run by (rule FindClosedOrbit_parts) (rule attach_detach [OF _ _ valid])

text \<open>The theorem at a call with radiation enabled and a bend scale of 2, on an empty
  store and a tracker with no process: the tracker has no process afterwards, and
  address 0, the synchrotron-radiation process, is still live.\<close>

theorem transient_processes_witness:
  "\<exists>co' st' p'.
     FindClosedOrbit (\<lambda>n procs st. triple_ring) diagonal_solve
       ((construct 0 1 0 0)\<lparr>radiation := True, bendscale := 2\<rparr>) [] (\<lambda>_. 1) 0 =
       Some (co', st', p') \<and>
     theTracker co' = {} \<and> live st' = [0]"
proof -
  let ?co = "(construct 0 1 0 0)\<lparr>radiation := True, bendscale := 2\<rparr>"
  have pres: "\<forall>n procs st b. length ((\<lambda>n procs st. triple_ring) n procs st b) = length b"
    by (simp add: triple_ring_def)
  from FindClosedOrbit_returns [OF pres] obtain co' st' p' where
    run: "FindClosedOrbit (\<lambda>n procs st. triple_ring) diagonal_solve ?co [] (\<lambda>_. 1) 0 =
      Some (co', st', p')"
    by blast
  have valid: "\<forall>a\<in>theTracker ?co. a < length []"
    by (simp add: construct_def)
  from transient_processes [OF run valid] run show ?thesis
    by (simp add: construct_def live_def)
qed

subsection \<open>What the call leaves for the caller\<close>

text \<open>A transverse-only solve with \<^verbatim>\<open>delta = 1\<close> and \<^verbatim>\<open>max_iter = 2\<close> on the tripling
  ring, from the guess with every coordinate 1. Every number of this call is a small
  integer.\<close>

lemma triple_ring_call:
  "FindClosedOrbit (\<lambda>n procs st. triple_ring) diagonal_solve
      ((construct 0 1 0 0)\<lparr>transverseOnly := True, delta := 1, max_iter := 2\<rparr>) [] (\<lambda>_. 1) 0 =
     Some ((construct 0 1 0 0)\<lparr>transverseOnly := True, delta := 1, max_iter := 2,
                                w := 4, iter := 2\<rparr>, [],
           \<lambda>i. if i < 4 then 0 else 1)"
proof -
  let ?co = "(construct 0 1 0 0)\<lparr>transverseOnly := True, delta := 1, max_iter := 2\<rparr>"
  let ?p1 = "\<lambda>i::nat. if i < 4 then 0 else (1::real)"
  have att: "attach_transient ?co [] = (None, None, ?co, [])"
    by (simp add: attach_transient_def construct_def)
  have loop: "orbit_loop triple_ring diagonal_solve 4 (delta ?co) (tol ?co) 2
      (replicate 5 (\<lambda>_. 1)) (\<lambda>_. 1) 1 1 =
        Some (triple_ring (reset_bunch (delta ?co) (\<lambda>_. 1) (replicate 5 (\<lambda>_. 1))), ?p1, 4, 2)"
    by (rule triple_ring_one_pass) (simp_all add: construct_def)
  have det: "detach_transient None None (?co\<lparr>w := 4, iter := 2\<rparr>) [] = (?co\<lparr>w := 4, iter := 2\<rparr>, [])"
    by (simp add: detach_transient_def)
  show ?thesis
    unfolding FindClosedOrbit_def Let_def att
    using loop det by simp
qed

text \<open>
  Claim C7 as stated fails: the call returns \<^verbatim>\<open>void\<close>, and the fields it leaves do
  not hold the final residual. The call above makes one pass and stops on the budget with
  \<^verbatim>\<open>w = 4\<close> above the tolerance and \<^verbatim>\<open>iter = 2\<close>. The squared norm of the residual
  of that pass is 16, and the squared norm of the residual of the vector handed back is 0
  (it is the fixed point of the ring): neither can be read off \<^verbatim>\<open>w\<close>, and the call
  reports as not converged a vector that is the closed orbit.
\<close>

theorem reported_metric_is_no_residual:
  "FindClosedOrbit (\<lambda>n procs st. triple_ring) diagonal_solve
      ((construct 0 1 0 0)\<lparr>transverseOnly := True, delta := 1, max_iter := 2\<rparr>) [] (\<lambda>_. 1) 0 =
     Some ((construct 0 1 0 0)\<lparr>transverseOnly := True, delta := 1, max_iter := 2,
                                w := 4, iter := 2\<rparr>, [],
           \<lambda>i. if i < 4 then 0 else 1) \<and>
   tol (construct 0 1 0 0) < 4 \<and>
   dot 4 (residual 4 (triple_ring (reset_bunch 1 (\<lambda>_. 1) (replicate 5 (\<lambda>_. 1)))) (\<lambda>_. 1))
         (residual 4 (triple_ring (reset_bunch 1 (\<lambda>_. 1) (replicate 5 (\<lambda>_. 1)))) (\<lambda>_. 1)) = 16 \<and>
   dot 4 (residual 4 (triple_ring (replicate 5 (\<lambda>i. if i < 4 then 0 else 1))) (\<lambda>i. if i < 4 then 0 else 1))
         (residual 4 (triple_ring (replicate 5 (\<lambda>i. if i < 4 then 0 else 1))) (\<lambda>i. if i < 4 then 0 else 1)) = 0"
proof -
  let ?b1 = "triple_ring (reset_bunch 1 (\<lambda>_. 1) (replicate 5 (\<lambda>_. 1)))"
  let ?p1 = "\<lambda>i::nat. if i < 4 then 0 else (1::real)"
  have t: "tol (construct 0 1 0 0) < 4"
    by (simp add: construct_def)
  have r1: "dot 4 (residual 4 ?b1 (\<lambda>_. 1)) (residual 4 ?b1 (\<lambda>_. 1)) = 16"
    by (simp add: dot_def residual_def triple_ring_def reset_bunch_def perturb_def
        eval_nat_numeral upt_rec)
  have r2: "dot 4 (residual 4 (triple_ring (replicate 5 ?p1)) ?p1)
                  (residual 4 (triple_ring (replicate 5 ?p1)) ?p1) = 0"
    by (simp add: dot_def residual_def triple_ring_def eval_nat_numeral upt_rec)
  from triple_ring_call t r1 r2 show ?thesis by blast
qed

text \<open>
  Claim C7, amended. Take a \<^verbatim>\<open>delta\<close> other than zero, so that \<^verbatim>\<open>w\<close> is a number. A
  call that returns leaves the last guess in the caller's vector and two fields in the
  solver, \<^verbatim>\<open>w\<close> and \<^verbatim>\<open>iter\<close>; it hands back no flag, no residual and no count. On
  return the loop test \<^verbatim>\<open>w > tol && iter < max_iter\<close> is false, so a call that left
  \<^verbatim>\<open>w > tol\<close> used up its budget. Either no pass ran (\<^verbatim>\<open>w = 1\<close>, \<^verbatim>\<open>iter = 1\<close> and
  the vector is unchanged), or \<^verbatim>\<open>iter > 1\<close> and the loop of this call reached, with
  \<^verbatim>\<open>iter\<close> one less, a state where its test held, and the pass from that state gave
  the vector (the guess there less the solver's answer) and \<^verbatim>\<open>w\<close>, the dot product of
  that answer with itself: the squared norm of the last correction.
\<close>

theorem outcome_fields:
  assumes run: "FindClosedOrbit Track solve co st p ncpt = Some (co', st', p')"
    and step: "delta co \<noteq> 0"
  shows "case attach_transient co st of (srproc, ringdt, co2, st2) \<Rightarrow>
     (let cpt = (if transverseOnly co then 4 else 6);
          d = delta co;
          trk = Track ncpt (theTracker co2) st2;
          start = (replicate (cpt + 1) p, p, 1, 1)
      in \<not> (tol co < w co' \<and> iter co' < max_iter co) \<and>
         ((w co' = 1 \<and> iter co' = 1 \<and> p' = p) \<or>
          (\<exists>b q w0.
             iterates trk solve cpt d (tol co) (max_iter co) start (b, q, w0, iter co' - 1) \<and>
             tol co < w0 \<and> iter co' - 1 < max_iter co \<and> 1 < iter co' \<and>
             (let tracked = trk (reset_bunch d q b);
                  g' = solve cpt (jacobian cpt d tracked) (residual cpt tracked q)
              in p' = (\<lambda>row. if row < cpt then q row - g' row else q row) \<and>
                 w co' = dot cpt g' g'))))"
proof -
  define cpt :: nat where "cpt = (if transverseOnly co then 4 else 6)"
  from run obtain srproc ringdt co2 st2 b' w' it' where
    att: "attach_transient co st = (srproc, ringdt, co2, st2)" and
    loop: "orbit_loop (Track ncpt (theTracker co2) st2) solve cpt
       (delta co2) (tol co2) (max_iter co2) (replicate (cpt + 1) p) p 1 1 = Some (b', p', w', it')" and
    det: "detach_transient srproc ringdt (co2\<lparr>w := w', iter := it'\<rparr>) st2 = (co', st')"
    unfolding cpt_def by (rule FindClosedOrbit_parts)
  define trk where "trk = Track ncpt (theTracker co2) st2"
  define start where "start = (replicate (cpt + 1) p, p, 1::real, 1::int)"
  have co2: "delta co2 = delta co" "tol co2 = tol co" "max_iter co2 = max_iter co"
    using attach_transient_fields [OF att] by simp_all
  have left: "w co' = w'" "iter co' = it'"
    using detach_transient_fields [OF det] by simp_all
  from orbit_loop_iterates [OF loop]
  have reach: "iterates trk solve cpt (delta co) (tol co) (max_iter co) start (b', p', w', it')"
    and stop: "\<not> (tol co < w' \<and> it' < max_iter co)"
    by (simp_all add: co2 trk_def start_def)
  from iterates_previous [OF reach]
  have "(b', p', w', it') = start \<or>
        (\<exists>b q w0 it. iterates trk solve cpt (delta co) (tol co) (max_iter co) start (b, q, w0, it) \<and>
            tol co < w0 \<and> it < max_iter co \<and>
            iteration trk solve cpt (delta co) (b, q) = Some (b', p', w') \<and> it' = it + 1)"
    by simp
  then have last: "(w' = 1 \<and> it' = 1 \<and> p' = p) \<or>
          (\<exists>b q w0.
             iterates trk solve cpt (delta co) (tol co) (max_iter co) start (b, q, w0, it' - 1) \<and>
             tol co < w0 \<and> it' - 1 < max_iter co \<and> 1 < it' \<and>
             (let tracked = trk (reset_bunch (delta co) q b);
                  g' = solve cpt (jacobian cpt (delta co) tracked) (residual cpt tracked q)
              in p' = (\<lambda>row. if row < cpt then q row - g' row else q row) \<and>
                 w' = dot cpt g' g'))"
  proof
    assume "(b', p', w', it') = start"
    then show ?thesis by (simp add: start_def)
  next
    assume "\<exists>b q w0 it. iterates trk solve cpt (delta co) (tol co) (max_iter co) start (b, q, w0, it) \<and>
            tol co < w0 \<and> it < max_iter co \<and>
            iteration trk solve cpt (delta co) (b, q) = Some (b', p', w') \<and> it' = it + 1"
    then obtain b q w0 it where
      prev: "iterates trk solve cpt (delta co) (tol co) (max_iter co) start (b, q, w0, it)" and
      cond: "tol co < w0" "it < max_iter co" and
      pass: "iteration trk solve cpt (delta co) (b, q) = Some (b', p', w')" and
      it': "it' = it + 1"
      by blast
    have "1 \<le> it"
      using iterates_counter [OF prev] by (simp add: start_def)
    then have count: "1 < it'" "it' - 1 = it"
      using it' by simp_all
    from iteration_result [OF pass]
    have result: "let tracked = trk (reset_bunch (delta co) q b);
                  g' = solve cpt (jacobian cpt (delta co) tracked) (residual cpt tracked q)
              in p' = (\<lambda>row. if row < cpt then q row - g' row else q row) \<and>
                 w' = dot cpt g' g'"
      by (auto simp: Let_def)
    from prev cond count result show ?thesis
      by (intro disjI2 exI [of _ b] exI [of _ q] exI [of _ w0]) (simp only: simp_thms)
  qed
  from stop last show ?thesis
    unfolding att prod.case left [symmetric] trk_def start_def cpt_def
    by (simp only: Let_def simp_thms)
qed

text \<open>The theorem for the call above: \<^verbatim>\<open>w = 4\<close> is the squared norm of the correction
  of a pass from a state the loop reached with \<^verbatim>\<open>iter = 1\<close>.\<close>

theorem outcome_fields_witness:
  "\<exists>b q w0.
     iterates triple_ring diagonal_solve 4 1 (1 / 10 ^ 26) 2
       (replicate 5 (\<lambda>_. 1), \<lambda>_. 1, 1, 1) (b, q, w0, 1) \<and>
     1 / 10 ^ 26 < w0 \<and>
     (4::real) = dot 4
       (diagonal_solve 4 (jacobian 4 1 (triple_ring (reset_bunch 1 q b)))
          (residual 4 (triple_ring (reset_bunch 1 q b)) q))
       (diagonal_solve 4 (jacobian 4 1 (triple_ring (reset_bunch 1 q b)))
          (residual 4 (triple_ring (reset_bunch 1 q b)) q))"
proof -
  let ?co = "(construct 0 1 0 0)\<lparr>transverseOnly := True, delta := 1, max_iter := 2\<rparr>"
  have step: "delta ?co \<noteq> 0"
    by simp
  have att: "attach_transient ?co [] = (None, None, ?co, [])"
    by (simp add: attach_transient_def construct_def)
  from outcome_fields [OF triple_ring_call step]
  show ?thesis
    unfolding att prod.case Let_def by (simp add: construct_def) blast
qed

section \<open>The RMS orbit\<close>

lemma rms_loop_sum:
  "cs \<noteq> [] \<Longrightarrow>
   rms_loop cs prev rms len =
     Some (\<lambda>m. if m < 6 then rms m + trapezoid_mean_square cs prev m else rms m,
           len + path_length cs)"
proof (induction cs arbitrary: prev rms len)
  case Nil
  then show ?case by simp
next
  case (Cons c cs)
  have sq: "fst c * (snd c prev m + prev m) * (snd c prev m + prev m) / 4 =
            fst c * ((prev m + snd c prev m) / 2)\<^sup>2" for m
    by (simp add: power2_eq_square field_simps)
  show ?case
  proof (cases "cs = []")
    case True
    then show ?thesis
      by (auto simp: Let_def path_length_def sq)
  next
    case False
    from Cons.IH [OF False] False show ?thesis
      by (auto simp: Let_def path_length_def sq add.assoc)
  qed
qed

text \<open>
  Claim C9. For a beamline with at least one component, no component of negative length
  and a total length other than zero, \<^verbatim>\<open>FindRMSOrbit\<close> returns after one walk
  along the components, with no iteration to a fixed point; each of its six coordinates is the square root of the
  trapezoidal sum (each component of length \<open>dl\<close> adds \<open>dl\<close> times the square of the
  mean of the values before and after it) divided by the total path length.
\<close>

theorem rms_orbit:
  assumes "beamline \<noteq> []" and "path_length beamline \<noteq> 0"
    and "\<forall>c\<in>set beamline. 0 \<le> fst c"
  shows "\<exists>r. FindRMSOrbit beamline particle = Some r \<and>
           (\<forall>m<6. r m = sqrt (trapezoid_mean_square beamline particle m / path_length beamline))"
  using assms by (simp add: FindRMSOrbit_def rms_loop_sum)

text \<open>The theorem on two components: length 1 moving every coordinate from 0 to 2, then
  length 3 leaving it at 2. The sum is \<open>1 \<cdot> 1 + 3 \<cdot> 4 = 13\<close> over a length of 4.\<close>

theorem rms_orbit_witness:
  "\<exists>r. FindRMSOrbit [(1, \<lambda>q i. q i + 2), (3, \<lambda>q. q)] (\<lambda>_. 0) = Some r \<and> r 0 = sqrt (13 / 4)"
proof -
  have ne: "[(1::real, \<lambda>(q::PSvector) i. q i + 2), (3, \<lambda>q. q)] \<noteq> []" by simp
  have len: "path_length [(1::real, \<lambda>(q::PSvector) i. q i + 2), (3, \<lambda>q. q)] \<noteq> 0"
    by (simp add: path_length_def)
  have pos: "\<forall>c\<in>set [(1::real, \<lambda>(q::PSvector) i. q i + 2), (3, \<lambda>q. q)]. 0 \<le> fst c"
    by simp
  from rms_orbit [OF ne len pos, of "\<lambda>_. 0"] show ?thesis
    by (auto simp: path_length_def power2_eq_square)
qed

section \<open>Incremental tracking\<close>

subsection \<open>The free store and the parts of TrackBeam\<close>

lemma deref_update: "a < length h \<Longrightarrow> deref (h[a := v]) a = v"
  by (simp add: deref_def)

lemma deref_append: "deref h a = Some b \<Longrightarrow> deref (h @ t) a = Some b"
  by (auto simp: deref_def nth_append split: if_splits)

lemma deref_live: "deref h a = Some b \<Longrightarrow> a < length h"
  by (auto simp: deref_def split: if_splits)

lemma gap_fill_eq:
  assumes cb: "cachedBunches acc ! i = cb"
    and live: "deref (free_store acc) (bunch cb) = Some b"
  shows "gap_fill track acc i =
     (if allowIncrTracking acc \<and> fst (currentSegment acc) \<noteq> 0 \<and>
         location cb + 1 \<noteq> fst (currentSegment acc)
      then Returns (acc\<lparr>cachedBunches :=
                          (cachedBunches acc)[i := cb\<lparr>location := fst (currentSegment acc) - 1\<rparr>],
                        free_store := (free_store acc)[bunch cb :=
                          Some (track (if location cb = 0 then 0 else location cb + 1)
                                  (fst (currentSegment acc) - 1) b)]\<rparr>)
      else Returns acc)"
  using assms by (simp add: gap_fill_def Let_def TrackThisBunch_def)

lemma track_copy_eq:
  assumes cb: "cachedBunches acc ! i = cb"
    and live: "deref (free_store acc) (bunch cb) = Some b"
  shows "track_copy track acc i =
     Returns (acc\<lparr>free_store := free_store acc @
                 [Some (track (if allowIncrTracking acc then fst (currentSegment acc) else 0)
                          (snd (currentSegment acc)) b)]\<rparr>,
              length (free_store acc))"
  using assms by (simp add: track_copy_def Let_def TrackBunch_def)

lemma TrackBeam_traced_eq:
  assumes idx: "unat nstate < length (cachedBunches acc)"
    and gf: "gap_fill track acc (unat nstate) = Returns acc1"
    and live: "deref (free_store acc1) (bunch (cachedBunches acc1 ! unat nstate)) = Some b"
  shows "TrackBeam_traced track acc nstate =
     Returns (acc1\<lparr>free_store := free_store acc1 @ [None]\<rparr>,
              track (if allowIncrTracking acc1 then fst (currentSegment acc1) else 0)
                (snd (currentSegment acc1)) b)"
  using idx gf track_copy_eq [OF refl live, of track]
  by (simp add: TrackBeam_traced_def deref_def)

lemma gap_fill_frame:
  assumes "gap_fill track acc i = Returns acc1"
  shows "allowIncrTracking acc1 = allowIncrTracking acc \<and>
         currentSegment acc1 = currentSegment acc \<and>
         length (cachedBunches acc1) = length (cachedBunches acc) \<and>
         length (free_store acc1) = length (free_store acc)"
  using assms
  by (auto simp: gap_fill_def Let_def TrackThisBunch_def split: if_splits option.splits)

subsection \<open>InitialiseTracking\<close>

lemma InitialiseTracking_loop_eq:
  "InitialiseTracking_loop mk n acc refs =
     (acc\<lparr>free_store := free_store acc @ replicate (unat n) (Some mk),
          cachedBunches := cachedBunches acc @
            map (\<lambda>j. \<lparr>location = 0, bunch = length (free_store acc) + j\<rparr>) [0..<unat n]\<rparr>,
      refs @ map (\<lambda>j. length (free_store acc) + j) [0..<unat n])"
proof (induction mk n acc refs rule: InitialiseTracking_loop.induct)
  case (1 mk nstates acc refplist)
  show ?case
  proof (cases "nstates > 0")
    case False
    then have "nstates = 0" by (simp add: word_gt_0)
    then show ?thesis by (subst InitialiseTracking_loop.simps) simp
  next
    case True
    then have n: "unat nstates = Suc (unat (nstates - 1))"
      by (simp add: unat_minus_one word_gt_0 unat_gt_0)
    have shift: "map f [0..<Suc k] = f 0 # map (\<lambda>j. f (Suc j)) [0..<k]" for f :: "nat \<Rightarrow> 'c" and k
      by (simp add: upt_conv_Cons map_Suc_upt [symmetric] del: upt_Suc)
    show ?thesis
      apply (subst InitialiseTracking_loop.simps)
      apply (simp only: True if_True Let_def)
      apply (subst "1.IH" [OF True refl refl refl refl])
      apply (simp add: n shift replicate_append_same del: upt_Suc replicate_Suc)
      apply (simp add: replicate_append_same [symmetric])
      done
  qed
qed

lemma InitialiseTracking_eq:
  "InitialiseTracking mk acc n =
     (acc\<lparr>cachedBunches :=
            map (\<lambda>j. \<lparr>location = 0, bunch = length (free_store acc) + j\<rparr>) [0..<unat n],
          free_store := free_store acc @ replicate (unat n) (Some mk)\<rparr>,
      map (\<lambda>j. length (free_store acc) + j) [0..<unat n])"
  by (simp add: InitialiseTracking_def InitialiseTracking_loop_eq)

lemma InitialiseTracking_entry:
  assumes "InitialiseTracking mk acc n = (acc', refplist)" "i < unat n"
  shows "cachedBunches acc' ! i = \<lparr>location = 0, bunch = refplist ! i\<rparr> \<and>
         deref (free_store acc') (refplist ! i) = Some mk"
  using assms by (auto simp: InitialiseTracking_eq deref_def nth_append)

lemma InitialiseTracking_one:
  "InitialiseTracking mk acc 1 =
     (acc\<lparr>cachedBunches := [\<lparr>location = 0, bunch = length (free_store acc)\<rparr>],
          free_store := free_store acc @ [Some mk]\<rparr>,
      [length (free_store acc)])"
  by (simp add: InitialiseTracking_eq)

subsection \<open>The example tracker\<close>

lemma one_state_eq:
  "one_state flg seg =
     \<lparr>cachedBunches = [\<lparr>location = 0, bunch = 0\<rparr>], currentSegment = seg,
      allowIncrTracking = flg, free_store = [Some []]\<rparr>"
  by (simp add: one_state_def InitialiseTracking_one Accelerator_init_def
      SetActiveBeamlineSegment_def AllowIncrementalTracking_def)

lemma visit_eval:
  "visit 0 1 xs = xs @ [0, 1]"
  "visit 0 2 xs = xs @ [0, 1, 2]"
  "visit 0 3 xs = xs @ [0, 1, 2, 3]"
  "visit 0 4 xs = xs @ [0, 1, 2, 3, 4]"
  "visit 2 3 xs = xs @ [2, 3]"
  "visit 0 10 xs = xs @ [0, 1, 2, 3, 4, 5, 6, 7, 8, 9, 10]"
  "visit 5 10 xs = xs @ [5, 6, 7, 8, 9, 10]"
  by (simp_all add: visit_def upt_rec)

lemma word_pred_less: "f \<noteq> 0 \<Longrightarrow> f - 1 < (f::64 word)"
  by unat_arith

lemma word_pred_less_le: "f \<noteq> 0 \<Longrightarrow> f \<le> l \<Longrightarrow> f - 1 < (l::64 word)"
  by unat_arith

lemma word_less_pred: "loc < f \<Longrightarrow> loc + 1 \<noteq> f \<Longrightarrow> loc < f - (1::64 word)"
  by unat_arith

lemma word_pred_nonzero: "f \<noteq> 0 \<Longrightarrow> f \<noteq> 1 \<Longrightarrow> f - 1 \<noteq> (0::64 word)"
  by simp

subsection \<open>The gap-fill\<close>

text \<open>
  Claim C3. With incremental tracking enabled and a live cached bunch, the block of
  lines 109 to 127 does nothing when the active segment starts at index 0, whatever the
  cached location is. Otherwise, when the cached location plus one differs from the
  segment start, it tracks the cached bunch in place through \<open>[n1, n2]\<close>, with \<open>n1\<close>
  the location plus one (0 when the location is 0) and \<open>n2\<close> the segment start minus
  one, and sets the location to \<open>n2\<close>; when they are equal it does nothing. So for a
  state initialised afresh, after \<^verbatim>\<open>TrackBeam\<close> on segment \<open>(5, 10)\<close> the block
  on segment \<open>(11, 20)\<close> leaves the location at 10, the cached bunch having been tracked
  through \<open>[0, 4]\<close> and then \<open>[5, 10]\<close>.
\<close>

theorem gap_fill_range:
  assumes incr: "allowIncrTracking acc"
    and cb: "cachedBunches acc ! i = cb"
    and live: "deref (free_store acc) (bunch cb) = Some b"
  shows "gap_fill track acc i =
     (if fst (currentSegment acc) = 0 then Returns acc
      else if location cb + 1 \<noteq> fst (currentSegment acc) then
        Returns (acc\<lparr>cachedBunches :=
                      (cachedBunches acc)[i := cb\<lparr>location := fst (currentSegment acc) - 1\<rparr>],
                    free_store := (free_store acc)[bunch cb :=
                      Some (track (if location cb = 0 then 0 else location cb + 1)
                              (fst (currentSegment acc) - 1) b)]\<rparr>)
      else Returns acc) \<and>
    (case TrackBeam track
            (SetActiveBeamlineSegment
               (AllowIncrementalTracking (fst (InitialiseTracking mk acc0 1)) True) (5, 10)) 0 of
       Returns acc1 \<Rightarrow>
         (case gap_fill track (SetActiveBeamlineSegment acc1 (11, 20)) 0 of
            Returns acc2 \<Rightarrow>
              location (cachedBunches acc2 ! 0) = 10 \<and>
              deref (free_store acc2) (bunch (cachedBunches acc2 ! 0)) =
                Some (track 5 10 (track 0 4 mk))
          | _ \<Rightarrow> False)
     | _ \<Rightarrow> False)"
proof -
  have general: "gap_fill track acc i =
     (if fst (currentSegment acc) = 0 then Returns acc
      else if location cb + 1 \<noteq> fst (currentSegment acc) then
        Returns (acc\<lparr>cachedBunches :=
                      (cachedBunches acc)[i := cb\<lparr>location := fst (currentSegment acc) - 1\<rparr>],
                    free_store := (free_store acc)[bunch cb :=
                      Some (track (if location cb = 0 then 0 else location cb + 1)
                              (fst (currentSegment acc) - 1) b)]\<rparr>)
      else Returns acc)"
    using incr by (simp add: gap_fill_eq [OF cb live])
  let ?n0 = "length (free_store acc0)"
  let ?A = "fst (InitialiseTracking mk acc0 1)"
  let ?B = "SetActiveBeamlineSegment (AllowIncrementalTracking ?A True) (5, 10)"
  let ?cb = "\<lparr>location = 0, bunch = ?n0\<rparr>"
  have cbB: "cachedBunches ?B ! 0 = ?cb"
    and liveB: "deref (free_store ?B) (bunch ?cb) = Some mk"
    by (simp_all add: InitialiseTracking_one SetActiveBeamlineSegment_def
        AllowIncrementalTracking_def deref_def)
  let ?B1 = "?B\<lparr>cachedBunches := (cachedBunches ?B)[0 := ?cb\<lparr>location := 4\<rparr>],
                free_store := (free_store ?B)[?n0 := Some (track 0 4 mk)]\<rparr>"
  have gfB: "gap_fill track ?B (unat (0::size_t)) = Returns ?B1"
    using gap_fill_eq [OF cbB liveB, of track]
    by (simp add: SetActiveBeamlineSegment_def AllowIncrementalTracking_def)
  have idxB: "unat (0::size_t) < length (cachedBunches ?B)"
    by (simp add: InitialiseTracking_one SetActiveBeamlineSegment_def AllowIncrementalTracking_def)
  have liveB1: "deref (free_store ?B1) (bunch (cachedBunches ?B1 ! unat (0::size_t))) =
      Some (track 0 4 mk)"
    by (simp add: InitialiseTracking_one SetActiveBeamlineSegment_def
        AllowIncrementalTracking_def deref_def)
  let ?acc1 = "?B1\<lparr>free_store := free_store ?B1 @ [None]\<rparr>"
  have first: "TrackBeam track ?B 0 = Returns ?acc1"
    using TrackBeam_traced_eq [OF idxB gfB liveB1] by (simp add: TrackBeam_def)
  let ?C = "SetActiveBeamlineSegment ?acc1 (11, 20)"
  let ?cb1 = "\<lparr>location = 4, bunch = ?n0\<rparr>"
  have cbC: "cachedBunches ?C ! 0 = ?cb1"
    and liveC: "deref (free_store ?C) (bunch ?cb1) = Some (track 0 4 mk)"
    by (simp_all add: InitialiseTracking_one SetActiveBeamlineSegment_def
        AllowIncrementalTracking_def deref_def nth_append)
  have second: "gap_fill track ?C 0 =
      Returns (?C\<lparr>cachedBunches := (cachedBunches ?C)[0 := ?cb1\<lparr>location := 10\<rparr>],
                  free_store := (free_store ?C)[?n0 := Some (track 5 10 (track 0 4 mk))]\<rparr>)"
    using gap_fill_eq [OF cbC liveC, of track]
    by (simp add: SetActiveBeamlineSegment_def AllowIncrementalTracking_def)
  have scenario: "(case TrackBeam track ?B 0 of
       Returns acc1 \<Rightarrow>
         (case gap_fill track (SetActiveBeamlineSegment acc1 (11, 20)) 0 of
            Returns acc2 \<Rightarrow>
              location (cachedBunches acc2 ! 0) = 10 \<and>
              deref (free_store acc2) (bunch (cachedBunches acc2 ! 0)) =
                Some (track 5 10 (track 0 4 mk))
          | _ \<Rightarrow> False)
     | _ \<Rightarrow> False)"
    unfolding first outcome.case second
    by (simp add: InitialiseTracking_one SetActiveBeamlineSegment_def
        AllowIncrementalTracking_def deref_def nth_append)
  from general scenario show ?thesis ..
qed

text \<open>The theorem on a fresh state with the example tracker and segment \<open>(5, 10)\<close>: the
  cached bunch passes 0 to 4 and the location becomes 4.\<close>

theorem gap_fill_range_witness:
  "gap_fill visit (one_state True (5, 10)) 0 =
     Returns \<lparr>cachedBunches = [\<lparr>location = 4, bunch = 0\<rparr>], currentSegment = (5, 10),
              allowIncrTracking = True, free_store = [Some [0, 1, 2, 3, 4]]\<rparr>"
proof -
  have incr: "allowIncrTracking (one_state True (5, 10))"
    by (simp add: one_state_eq)
  have cb: "cachedBunches (one_state True (5, 10)) ! 0 = \<lparr>location = 0, bunch = 0\<rparr>"
    by (simp add: one_state_eq)
  have live: "deref (free_store (one_state True (5, 10))) (bunch \<lparr>location = 0, bunch = 0\<rparr>) =
      Some []"
    by (simp add: one_state_eq deref_def)
  from gap_fill_range [OF incr cb live, of visit] show ?thesis
    by (simp add: one_state_eq visit_eval)
qed

subsection \<open>The tracked copy\<close>

text \<open>
  Claim C4 as stated fails: the tracked copy is not returned. \<^verbatim>\<open>TrackBeam\<close> returns
  \<^verbatim>\<open>void\<close> and deletes the copy on line 140. On a fresh state with the example
  tracker, incremental tracking and segment \<open>(2, 3)\<close>, the copy has passed 0, 1, 2, 3
  when line 139 reads it; after the call its cell (address 1) is empty, and the only
  live bunch is the cached one, which has passed 0 and 1.
\<close>

theorem tracked_copy_is_not_returned:
  "TrackBeam_traced visit (one_state True (2, 3)) 0 =
     Returns (\<lparr>cachedBunches = [\<lparr>location = 1, bunch = 0\<rparr>], currentSegment = (2, 3),
               allowIncrTracking = True, free_store = [Some [0, 1], None]\<rparr>, [0, 1, 2, 3]) \<and>
   TrackBeam visit (one_state True (2, 3)) 0 =
     Returns \<lparr>cachedBunches = [\<lparr>location = 1, bunch = 0\<rparr>], currentSegment = (2, 3),
              allowIncrTracking = True, free_store = [Some [0, 1], None]\<rparr>"
  by (simp add: TrackBeam_def TrackBeam_traced_def gap_fill_def track_copy_def
      TrackThisBunch_def TrackBunch_def deref_def Let_def one_state_eq visit_eval)

text \<open>
  Claim C4, amended. After the gap-fill block, \<^verbatim>\<open>TrackBeam\<close> tracks a copy of the
  cached bunch from the start of the active segment when incremental tracking is
  enabled, else from index 0, through the end of the active segment. The copy is deleted
  before the call returns and nothing is handed to the caller. The cache entries, their
  locations and the cached bunch are as the gap-fill block left them: the only change
  to the free store is the emptied cell of the copy.
\<close>

theorem tracked_copy_is_discarded:
  assumes idx: "unat nstate < length (cachedBunches acc)"
    and gf: "gap_fill track acc (unat nstate) = Returns acc1"
    and live: "deref (free_store acc1) (bunch (cachedBunches acc1 ! unat nstate)) = Some b"
  shows "\<exists>acc'. TrackBeam track acc nstate = Returns acc' \<and>
           TrackBeam_traced track acc nstate =
             Returns (acc', track (if allowIncrTracking acc then fst (currentSegment acc) else 0)
                              (snd (currentSegment acc)) b) \<and>
           cachedBunches acc' = cachedBunches acc1 \<and>
           free_store acc' = free_store acc1 @ [None] \<and>
           deref (free_store acc') (bunch (cachedBunches acc' ! unat nstate)) = Some b"
  using TrackBeam_traced_eq [OF idx gf live] gap_fill_frame [OF gf] live
  by (simp add: TrackBeam_def deref_append)

theorem tracked_copy_is_discarded_witness:
  "\<exists>acc'. TrackBeam visit (one_state False (2, 3)) 0 = Returns acc' \<and>
     TrackBeam_traced visit (one_state False (2, 3)) 0 = Returns (acc', [0, 1, 2, 3]) \<and>
     cachedBunches acc' = [\<lparr>location = 0, bunch = 0\<rparr>] \<and> free_store acc' = [Some [], None]"
proof -
  have idx: "unat (0::size_t) < length (cachedBunches (one_state False (2, 3)))"
    by (simp add: one_state_eq)
  have gf: "gap_fill visit (one_state False (2, 3)) (unat (0::size_t)) =
      Returns (one_state False (2, 3))"
    by (simp add: gap_fill_def one_state_eq)
  have live: "deref (free_store (one_state False (2, 3)))
      (bunch (cachedBunches (one_state False (2, 3)) ! unat (0::size_t))) = Some []"
    by (simp add: one_state_eq deref_def)
  from tracked_copy_is_discarded [OF idx gf live] show ?thesis
    by (auto simp: one_state_eq visit_eval)
qed

subsection \<open>Incremental against plain tracking\<close>

text \<open>The example tracker is compositional: passing \<open>0, \<dots>, m\<close> and then
  \<open>m + 1, \<dots>, l\<close> is passing \<open>0, \<dots>, l\<close>.\<close>

lemma visit_compositional:
  assumes "m < l"
  shows "visit (m + 1) l (visit 0 m x) = visit 0 l x"
proof -
  have next_index: "unat (m + 1) = Suc (unat m)"
    using assms by unat_arith
  have below: "unat m < unat l"
    using assms by (simp add: word_less_nat_alt)
  have "[0..<Suc (unat l)] = [0..<Suc (unat m)] @ [Suc (unat m)..<Suc (unat l)]"
    using below upt_add_eq_append [of 0 "Suc (unat m)" "unat l - unat m"] by simp
  then show ?thesis
    by (simp add: visit_def next_index del: upt_Suc)
qed

lemma incremental_step:
  assumes comp: "\<And>m l x. m < l \<Longrightarrow> track (m + 1) l (track 0 m x) = track 0 l x"
    and idx: "unat nstate < length (cachedBunches acc)"
    and incr: "allowIncrTracking acc"
    and cb: "cachedBunches acc ! unat nstate = \<lparr>location = loc, bunch = a\<rparr>"
    and live: "deref (free_store acc) a = Some (if loc = 0 then b else track 0 loc b)"
    and seg: "currentSegment acc = (f, l)" "f \<le> l" "f \<noteq> 1" "loc = 0 \<or> loc < f"
  shows "\<exists>acc' loc'. TrackBeam_traced track acc nstate = Returns (acc', track 0 l b) \<and>
           unat nstate < length (cachedBunches acc') \<and> allowIncrTracking acc' \<and>
           cachedBunches acc' ! unat nstate = \<lparr>location = loc', bunch = a\<rparr> \<and>
           deref (free_store acc') a = Some (if loc' = 0 then b else track 0 loc' b) \<and>
           (loc' = 0 \<or> loc' < f)"
proof -
  let ?cb = "\<lparr>location = loc, bunch = a\<rparr>"
  have a: "a < length (free_store acc)"
    using live by (rule deref_live)
  have live0: "deref (free_store acc) (bunch ?cb) = Some (if loc = 0 then b else track 0 loc b)"
    using live by simp
  note gf = gap_fill_eq [OF cb live0, of track]
  show ?thesis
  proof (cases "f = 0")
    case True
    with seg have loc: "loc = 0" by auto
    from gf True seg have g: "gap_fill track acc (unat nstate) = Returns acc" by simp
    have l1: "deref (free_store acc) (bunch (cachedBunches acc ! unat nstate)) = Some b"
      using live cb loc by simp
    from TrackBeam_traced_eq [OF idx g l1] True seg incr cb loc idx live
    show ?thesis by (auto intro: deref_append)
  next
    case False
    show ?thesis
    proof (cases "loc + 1 = f")
      case True
      with seg False have nz: "loc \<noteq> 0" and lt: "loc < l"
        by (auto simp: word_pred_less_le [of "loc + 1" l, simplified])
      from gf True seg have g: "gap_fill track acc (unat nstate) = Returns acc" by simp
      have l1: "deref (free_store acc) (bunch (cachedBunches acc ! unat nstate)) = Some (track 0 loc b)"
        using live cb nz by simp
      have "track f l (track 0 loc b) = track 0 l b"
        using comp [OF lt, of b] True by simp
      with TrackBeam_traced_eq [OF idx g l1] seg incr cb nz idx live True word_pred_less [OF False]
      show ?thesis by (auto intro: deref_append)
    next
      case gap: False
      let ?n1 = "if loc = 0 then 0 else loc + 1"
      let ?acc1 = "acc\<lparr>cachedBunches := (cachedBunches acc)[unat nstate := ?cb\<lparr>location := f - 1\<rparr>],
                       free_store := (free_store acc)[a :=
                          Some (track ?n1 (f - 1) (if loc = 0 then b else track 0 loc b))]\<rparr>"
      from gf gap False seg incr have g: "gap_fill track acc (unat nstate) = Returns ?acc1"
        by simp
      have pz: "f - 1 \<noteq> 0" using False seg by simp
      have filled: "track ?n1 (f - 1) (if loc = 0 then b else track 0 loc b) = track 0 (f - 1) b"
      proof (cases "loc = 0")
        case True
        then show ?thesis by simp
      next
        case nz: False
        with seg have "loc < f" by simp
        then have "loc < f - 1" using gap by (rule word_less_pred)
        from comp [OF this, of b] nz show ?thesis by simp
      qed
      have l1: "deref (free_store ?acc1) (bunch (cachedBunches ?acc1 ! unat nstate)) =
          Some (track 0 (f - 1) b)"
        using idx a filled by (simp add: deref_def)
      have "track f l (track 0 (f - 1) b) = track 0 l b"
        using comp [OF word_pred_less_le [OF False seg(2)], of b] by simp
      with TrackBeam_traced_eq [OF idx g l1] seg incr idx a pz filled word_pred_less [OF False]
      show ?thesis by (auto simp: deref_def nth_append)
    qed
  qed
qed

lemma plain_step:
  assumes idx: "unat nstate < length (cachedBunches acc)"
    and plain: "\<not> allowIncrTracking acc"
    and cb: "cachedBunches acc ! unat nstate = \<lparr>location = loc, bunch = a\<rparr>"
    and live: "deref (free_store acc) a = Some b"
  shows "\<exists>acc'. TrackBeam_traced track acc nstate =
             Returns (acc', track 0 (snd (currentSegment acc)) b) \<and>
           unat nstate < length (cachedBunches acc') \<and> \<not> allowIncrTracking acc' \<and>
           cachedBunches acc' ! unat nstate = \<lparr>location = loc, bunch = a\<rparr> \<and>
           deref (free_store acc') a = Some b"
proof -
  have live0: "deref (free_store acc) (bunch \<lparr>location = loc, bunch = a\<rparr>) = Some b"
    using live by simp
  from gap_fill_eq [OF cb live0, of track] plain
  have g: "gap_fill track acc (unat nstate) = Returns acc" by simp
  have l1: "deref (free_store acc) (bunch (cachedBunches acc ! unat nstate)) = Some b"
    using live cb by simp
  from TrackBeam_traced_eq [OF idx g l1] plain idx cb live show ?thesis
    by (auto intro: deref_append)
qed

lemma incremental_sequence:
  assumes comp: "\<And>m l x. m < l \<Longrightarrow> track (m + 1) l (track 0 m x) = track 0 l x"
  shows "unat nstate < length (cachedBunches acc) \<Longrightarrow> allowIncrTracking acc \<Longrightarrow>
    cachedBunches acc ! unat nstate = \<lparr>location = loc, bunch = a\<rparr> \<Longrightarrow>
    deref (free_store acc) a = Some (if loc = 0 then b else track 0 loc b) \<Longrightarrow>
    sorted (map fst segs) \<Longrightarrow>
    \<forall>s\<in>set segs. fst s \<le> snd s \<and> fst s \<noteq> 1 \<and> (loc = 0 \<or> loc < fst s) \<Longrightarrow>
    track_segments track acc nstate segs = Returns (map (\<lambda>s. track 0 (snd s) b) segs)"
proof (induction segs arbitrary: acc loc)
  case Nil
  show ?case by simp
next
  case (Cons seg segs)
  obtain f l where seg: "seg = (f, l)" by (cases seg)
  let ?acc = "SetActiveBeamlineSegment acc seg"
  have here: "f \<le> l" "f \<noteq> 1" "loc = 0 \<or> loc < f"
    using Cons.prems(6) seg by auto
  have "\<exists>acc' loc'. TrackBeam_traced track ?acc nstate = Returns (acc', track 0 l b) \<and>
           unat nstate < length (cachedBunches acc') \<and> allowIncrTracking acc' \<and>
           cachedBunches acc' ! unat nstate = \<lparr>location = loc', bunch = a\<rparr> \<and>
           deref (free_store acc') a = Some (if loc' = 0 then b else track 0 loc' b) \<and>
           (loc' = 0 \<or> loc' < f)"
    using Cons.prems(1-4) here
    by (intro incremental_step [OF comp]) (simp_all add: SetActiveBeamlineSegment_def seg)
  then obtain acc' loc' where
    step: "TrackBeam_traced track ?acc nstate = Returns (acc', track 0 l b)" and
    idx': "unat nstate < length (cachedBunches acc')" and incr': "allowIncrTracking acc'" and
    cb': "cachedBunches acc' ! unat nstate = \<lparr>location = loc', bunch = a\<rparr>" and
    live': "deref (free_store acc') a = Some (if loc' = 0 then b else track 0 loc' b)" and
    loc': "loc' = 0 \<or> loc' < f"
    by blast
  have later: "\<forall>s\<in>set segs. f \<le> fst s"
    using Cons.prems(5) seg by simp
  have rest: "\<forall>s\<in>set segs. fst s \<le> snd s \<and> fst s \<noteq> 1 \<and> (loc' = 0 \<or> loc' < fst s)"
    using Cons.prems(6) later loc' by auto
  have sorted': "sorted (map fst segs)"
    using Cons.prems(5) by simp
  from Cons.IH [OF idx' incr' cb' live' sorted' rest] step seg show ?case
    by simp
qed

lemma plain_sequence:
  "unat nstate < length (cachedBunches acc) \<Longrightarrow> \<not> allowIncrTracking acc \<Longrightarrow>
    cachedBunches acc ! unat nstate = \<lparr>location = loc, bunch = a\<rparr> \<Longrightarrow>
    deref (free_store acc) a = Some b \<Longrightarrow>
    track_segments track acc nstate segs = Returns (map (\<lambda>s. track 0 (snd s) b) segs)"
proof (induction segs arbitrary: acc)
  case Nil
  show ?case by simp
next
  case (Cons seg segs)
  let ?acc = "SetActiveBeamlineSegment acc seg"
  have "\<exists>acc'. TrackBeam_traced track ?acc nstate =
             Returns (acc', track 0 (snd (currentSegment ?acc)) b) \<and>
           unat nstate < length (cachedBunches acc') \<and> \<not> allowIncrTracking acc' \<and>
           cachedBunches acc' ! unat nstate = \<lparr>location = loc, bunch = a\<rparr> \<and>
           deref (free_store acc') a = Some b"
    using Cons.prems
    by (intro plain_step) (simp_all add: SetActiveBeamlineSegment_def)
  then obtain acc' where
    step: "TrackBeam_traced track ?acc nstate = Returns (acc', track 0 (snd seg) b)" and
    idx': "unat nstate < length (cachedBunches acc')" and plain': "\<not> allowIncrTracking acc'" and
    cb': "cachedBunches acc' ! unat nstate = \<lparr>location = loc, bunch = a\<rparr>" and
    live': "deref (free_store acc') a = Some b"
    by (auto simp: SetActiveBeamlineSegment_def)
  from Cons.IH [OF idx' plain' cb' live'] step show ?case
    by simp
qed

text \<open>
  Claim C5 as stated fails: the two modes do not agree on every sequence of segments.
  With the example tracker, on a fresh state, for the segments \<open>(5, 10)\<close> and then
  \<open>(0, 3)\<close>: both modes give a bunch that has passed 0 to 10 on the first call; on the
  second, plain tracking gives a bunch that has passed 0 to 3, and incremental tracking
  tracks a copy of the cached bunch, already advanced through 0 to 4, through 0 to 3
  again. The cache only moves forward.
\<close>

theorem incremental_differs_going_back:
  "track_segments visit (AllowIncrementalTracking (one_state False (0, 0)) True) 0
     [(5, 10), (0, 3)] =
     Returns [[0, 1, 2, 3, 4, 5, 6, 7, 8, 9, 10], [0, 1, 2, 3, 4, 0, 1, 2, 3]] \<and>
   track_segments visit (AllowIncrementalTracking (one_state False (0, 0)) False) 0
     [(5, 10), (0, 3)] =
     Returns [[0, 1, 2, 3, 4, 5, 6, 7, 8, 9, 10], [0, 1, 2, 3]]"
  by (simp add: TrackBeam_traced_def gap_fill_def track_copy_def
      TrackThisBunch_def TrackBunch_def deref_def Let_def one_state_eq visit_eval
      SetActiveBeamlineSegment_def AllowIncrementalTracking_def nth_append)

text \<open>
  Claim C5, amended. With incremental tracking disabled, every call of a sequence tracks
  a copy of the state's bunch from index 0 through the end of the active segment. For a
  compositional tracker, a state whose cache entry has not been advanced, and a sequence
  of segments with \<open>first \<le> last\<close> whose starts never decrease and are never 1,
  incremental tracking produces the same tracked bunches as plain tracking. (A segment
  starting at 1 on a cache at location 0 is left out: the source takes location 0 both for
  "never advanced" and for "advanced to element 0".)
\<close>

theorem incremental_agrees_going_forward:
  assumes comp: "\<And>m l x. m < l \<Longrightarrow> track (m + 1) l (track 0 m x) = track 0 l x"
    and idx: "unat nstate < length (cachedBunches acc)"
    and cb: "cachedBunches acc ! unat nstate = \<lparr>location = 0, bunch = a\<rparr>"
    and live: "deref (free_store acc) a = Some b"
    and fwd: "sorted (map fst segs)"
    and ok: "\<forall>s\<in>set segs. fst s \<le> snd s \<and> fst s \<noteq> 1"
  shows "track_segments track (AllowIncrementalTracking acc False) nstate segs =
           Returns (map (\<lambda>s. track 0 (snd s) b) segs) \<and>
         track_segments track (AllowIncrementalTracking acc True) nstate segs =
           track_segments track (AllowIncrementalTracking acc False) nstate segs"
proof -
  have plain: "track_segments track (AllowIncrementalTracking acc False) nstate segs =
           Returns (map (\<lambda>s. track 0 (snd s) b) segs)"
    using idx cb live
    by (intro plain_sequence [where loc = 0 and a = a])
       (simp_all add: AllowIncrementalTracking_def)
  have incr: "track_segments track (AllowIncrementalTracking acc True) nstate segs =
           Returns (map (\<lambda>s. track 0 (snd s) b) segs)"
    using idx cb live fwd ok
    by (intro incremental_sequence [OF comp, where loc = 0 and a = a])
       (simp_all add: AllowIncrementalTracking_def)
  from plain incr show ?thesis by simp
qed

text \<open>The theorem for the example tracker and the segments \<open>(0, 3)\<close>, \<open>(5, 10)\<close>.\<close>

theorem incremental_agrees_going_forward_witness:
  "track_segments visit (AllowIncrementalTracking (one_state False (0, 0)) True) 0
     [(0, 3), (5, 10)] =
     Returns [[0, 1, 2, 3], [0, 1, 2, 3, 4, 5, 6, 7, 8, 9, 10]]"
proof -
  let ?acc = "one_state False (0, 0)"
  have idx: "unat (0::size_t) < length (cachedBunches ?acc)"
    by (simp add: one_state_eq)
  have cb: "cachedBunches ?acc ! unat (0::size_t) = \<lparr>location = 0, bunch = 0\<rparr>"
    by (simp add: one_state_eq)
  have live: "deref (free_store ?acc) 0 = Some []"
    by (simp add: one_state_eq deref_def)
  have fwd: "sorted (map fst [(0::size_t, 3::size_t), (5, 10)])"
    by simp
  have ok: "\<forall>s\<in>set [(0::size_t, 3::size_t), (5, 10)]. fst s \<le> snd s \<and> fst s \<noteq> 1"
    by simp
  from incremental_agrees_going_forward [OF visit_compositional idx cb live fwd ok]
  show ?thesis
    by (simp add: visit_eval)
qed

subsection \<open>The state index\<close>

text \<open>
  Claim C8 as stated fails: no call is rejected. \<^verbatim>\<open>TrackBeam\<close> on state 0 of an
  accelerator that was never initialised, and on state 1 after
  \<^verbatim>\<open>InitialiseTracking(1, refplist)\<close>, reads \<^verbatim>\<open>cachedBunches[nstate]\<close> out of range:
  undefined behaviour, not a rejection.
\<close>

theorem unchecked_state_index:
  "TrackBeam visit Accelerator_init 0 = Undefined \<and>
   TrackBeam visit (one_state True (2, 3)) 1 = Undefined \<and>
   TrackBeam visit (one_state True (2, 3)) 1 \<noteq> Rejected"
  by (simp add: TrackBeam_def TrackBeam_traced_def Accelerator_init_def one_state_eq)

text \<open>
  Claim C8, amended. \<^verbatim>\<open>TrackBeam\<close> makes no check of the state index and never
  rejects a call. After \<^verbatim>\<open>InitialiseTracking(nstates, refplist)\<close> it runs on the cache
  entry for every index below \<open>nstates\<close>; for every other index the unchecked access
  \<^verbatim>\<open>cachedBunches[nstate]\<close> is out of range and the behaviour is undefined.
\<close>

theorem no_state_index_check:
  "TrackBeam track acc nstate \<noteq> Rejected \<and>
   (TrackBeam track (fst (InitialiseTracking mk acc nstates)) nstate = Undefined) =
     (nstates \<le> nstate)"
proof -
  have gf: "gap_fill track acc i \<noteq> Rejected" for i
    by (simp add: gap_fill_def Let_def split: option.splits)
  have tc: "track_copy track a i \<noteq> Rejected" for a i
    by (simp add: track_copy_def Let_def split: option.splits)
  have "TrackBeam_traced track acc nstate \<noteq> Rejected"
    using gf [of "unat nstate"] tc
    by (simp add: TrackBeam_traced_def split: outcome.splits option.splits prod.splits)
  then have never: "TrackBeam track acc nstate \<noteq> Rejected"
    by (simp add: TrackBeam_def split: outcome.splits)
  obtain acc' refplist where init: "InitialiseTracking mk acc nstates = (acc', refplist)"
    by (cases "InitialiseTracking mk acc nstates")
  have len: "length (cachedBunches acc') = unat nstates"
    using init by (auto simp: InitialiseTracking_eq)
  have "(TrackBeam track acc' nstate = Undefined) = (nstates \<le> nstate)"
  proof (cases "nstates \<le> nstate")
    case True
    then have "\<not> unat nstate < length (cachedBunches acc')"
      by (simp add: len word_le_nat_alt)
    with True show ?thesis
      by (simp add: TrackBeam_def TrackBeam_traced_def)
  next
    case False
    then have i: "unat nstate < unat nstates"
      by (simp add: word_less_nat_alt not_le)
    let ?cb = "\<lparr>location = 0, bunch = refplist ! unat nstate\<rparr>"
    from InitialiseTracking_entry [OF init i]
    have cb: "cachedBunches acc' ! unat nstate = ?cb"
      and live: "deref (free_store acc') (bunch ?cb) = Some mk"
      by simp_all
    have "\<exists>acc1 b. gap_fill track acc' (unat nstate) = Returns acc1 \<and>
        deref (free_store acc1) (bunch (cachedBunches acc1 ! unat nstate)) = Some b"
      using deref_live [OF live] i len live cb
      by (auto simp: gap_fill_eq [OF cb live] deref_update)
    then obtain acc1 b where gf: "gap_fill track acc' (unat nstate) = Returns acc1"
      and live1: "deref (free_store acc1) (bunch (cachedBunches acc1 ! unat nstate)) = Some b"
      by blast
    have idx: "unat nstate < length (cachedBunches acc')"
      using i len by simp
    from TrackBeam_traced_eq [OF idx gf live1] False show ?thesis
      by (simp add: TrackBeam_def)
  qed
  with never init show ?thesis by simp
qed

subsection \<open>Reference particles and cache entries\<close>

text \<open>
  Claim C10. After \<^verbatim>\<open>InitialiseTracking(nstates, refplist)\<close> the reference-particle
  list and the cache hold \<open>nstates\<close> entries each, and entry \<open>i\<close> of the list is the
  pointer stored in cache entry \<open>i\<close>: one bunch object, no copy. So for every
  \<open>i < nstates\<close> the bunch behind reference particle \<open>i\<close> is the new bunch, and a later
  gap-fill on state \<open>i\<close> (incremental tracking, a segment starting beyond 1) changes it
  to the bunch tracked through \<open>[0, first - 1]\<close>.
\<close>

theorem reference_particles_alias_cache:
  assumes init: "InitialiseTracking mk acc nstates = (acc', refplist)"
  shows "length refplist = unat nstates \<and> length (cachedBunches acc') = unat nstates \<and>
         map bunch (cachedBunches acc') = refplist \<and>
         (\<forall>i<unat nstates. \<forall>seg.
            deref (free_store acc') (refplist ! i) = Some mk \<and>
            (fst seg \<noteq> 0 \<and> fst seg \<noteq> 1 \<longrightarrow>
              (\<exists>acc''. gap_fill track
                          (SetActiveBeamlineSegment (AllowIncrementalTracking acc' True) seg) i =
                        Returns acc'' \<and>
                 deref (free_store acc'') (refplist ! i) = Some (track 0 (fst seg - 1) mk))))"
proof -
  have lens: "length refplist = unat nstates" "length (cachedBunches acc') = unat nstates"
    using init by (auto simp: InitialiseTracking_eq)
  have same: "map bunch (cachedBunches acc') = refplist"
    using init by (auto simp: InitialiseTracking_eq comp_def)
  have mut: "deref (free_store acc') (refplist ! i) = Some mk \<and>
            (fst seg \<noteq> 0 \<and> fst seg \<noteq> 1 \<longrightarrow>
              (\<exists>acc''. gap_fill track
                          (SetActiveBeamlineSegment (AllowIncrementalTracking acc' True) seg) i =
                        Returns acc'' \<and>
                 deref (free_store acc'') (refplist ! i) = Some (track 0 (fst seg - 1) mk)))"
    if i: "i < unat nstates" for i seg
  proof -
    let ?acc = "SetActiveBeamlineSegment (AllowIncrementalTracking acc' True) seg"
    from InitialiseTracking_entry [OF init i]
    have cb: "cachedBunches ?acc ! i = \<lparr>location = 0, bunch = refplist ! i\<rparr>"
      and live: "deref (free_store ?acc) (bunch \<lparr>location = 0, bunch = refplist ! i\<rparr>) = Some mk"
      by (simp_all add: SetActiveBeamlineSegment_def AllowIncrementalTracking_def)
    from live have live': "deref (free_store acc') (refplist ! i) = Some mk"
      by (simp add: SetActiveBeamlineSegment_def AllowIncrementalTracking_def)
    have "fst seg \<noteq> 0 \<and> fst seg \<noteq> 1 \<longrightarrow>
              (\<exists>acc''. gap_fill track ?acc i = Returns acc'' \<and>
                 deref (free_store acc'') (refplist ! i) = Some (track 0 (fst seg - 1) mk))"
      using deref_live [OF live']
      by (simp add: gap_fill_eq [OF cb live] deref_update)
         (auto simp: SetActiveBeamlineSegment_def AllowIncrementalTracking_def deref_update)
    with live' show ?thesis by blast
  qed
  from lens same mut show ?thesis by blast
qed

text \<open>The theorem for two states, the example tracker and segment \<open>(3, 7)\<close> on state 1:
  the bunch behind reference particle 1 has passed 0, 1, 2 after the gap-fill.\<close>

theorem reference_particles_alias_cache_witness:
  "\<exists>acc''. gap_fill visit
       (SetActiveBeamlineSegment
          (AllowIncrementalTracking (fst (InitialiseTracking [] Accelerator_init 2)) True) (3, 7)) 1 =
       Returns acc'' \<and>
     snd (InitialiseTracking [] (Accelerator_init :: nat list Accelerator) 2) = [0, 1] \<and>
     deref (free_store acc'') 1 = Some [0, 1, 2]"
proof -
  let ?A = "\<lparr>cachedBunches = [\<lparr>location = 0, bunch = 0\<rparr>, \<lparr>location = 0, bunch = 1\<rparr>],
             currentSegment = (0, 0), allowIncrTracking = False,
             free_store = [Some ([]::nat list), Some []]\<rparr>"
  have two: "[0..<2::nat] = [0, 1]" "replicate 2 x = [x, x]" for x :: "nat list option"
    by (simp_all add: upt_rec numeral_2_eq_2)
  have init: "InitialiseTracking [] Accelerator_init 2 = (?A, [0, 1])"
    by (simp add: InitialiseTracking_eq Accelerator_init_def two)
  from reference_particles_alias_cache [OF init, of visit]
  have "\<forall>i<unat (2::size_t). \<forall>seg. fst seg \<noteq> 0 \<and> fst seg \<noteq> 1 \<longrightarrow>
              (\<exists>acc''. gap_fill visit
                          (SetActiveBeamlineSegment (AllowIncrementalTracking ?A True) seg) i =
                        Returns acc'' \<and>
                 deref (free_store acc'') ([0, 1] ! i) = Some (visit 0 (fst seg - 1) []))"
    by blast
  then have "1 < unat (2::size_t) \<longrightarrow> fst (3::size_t, 7::size_t) \<noteq> 0 \<and> fst (3::size_t, 7::size_t) \<noteq> 1 \<longrightarrow>
       (\<exists>acc''. gap_fill visit
       (SetActiveBeamlineSegment (AllowIncrementalTracking ?A True) (3, 7)) 1 = Returns acc'' \<and>
       deref (free_store acc'') ([0, 1] ! 1) = Some (visit 0 (fst (3::size_t, 7::size_t) - 1) []))"
    by blast
  then have "\<exists>acc''. gap_fill visit
       (SetActiveBeamlineSegment (AllowIncrementalTracking ?A True) (3, 7)) 1 = Returns acc'' \<and>
       deref (free_store acc'') 1 = Some [0, 1, 2]"
    by (simp add: visit_eval)
  with init show ?thesis by simp
qed

end
